theory Spec2Isabelle
  imports Main
begin

section \<open>golobactl: the command-line client of the goloba load balancer\<close>

text \<open>
  The development follows \<^verbatim>\<open>cmd/golobactl/main.go\<close>. Each subcommand starts one goroutine
  per configured API server, the goroutine sends one HTTP GET request and prints what it
  received, and the command waits on a \<^verbatim>\<open>sync.WaitGroup\<close> for all of them.

  Strings are lists of bytes, as Go's are. The column widths of \<^verbatim>\<open>fmt\<close> count runes, that
  is UTF-8 sequences, and a byte that starts no valid sequence counts as one rune.
\<close>

subsection \<open>Formatting verbs of \<^verbatim>\<open>fmt\<close> and \<^verbatim>\<open>strconv\<close>\<close>

definition newline :: string where
  "newline = [CHR 0x0A]"

definition digit :: "nat \<Rightarrow> char" where
  "digit n = ''0123456789'' ! (n mod 10)"

fun showNat :: "nat \<Rightarrow> string" where
  "showNat n = (if n < 10 then [digit n] else showNat (n div 10) @ [digit (n mod 10)])"

declare showNat.simps [simp del]

text \<open>\<^verbatim>\<open>strconv.Itoa\<close> and the verb \<^verbatim>\<open>%d\<close>: decimal digits, a minus sign for a negative value.\<close>

definition itoa :: "int \<Rightarrow> string" where
  "itoa i = (if i < 0 then CHR ''-'' # showNat (nat (- i)) else showNat (nat i))"

text \<open>The verb \<^verbatim>\<open>%v\<close> on a \<^verbatim>\<open>bool\<close>.\<close>

definition showBool :: "bool \<Rightarrow> string" where
  "showBool b = (if b then ''true'' else ''false'')"

text \<open>
  The decoding of \<^verbatim>\<open>unicode/utf8\<close>: the number of bytes of the first rune of a string. A byte
  below \<^verbatim>\<open>0x80\<close> is a rune. The bytes \<^verbatim>\<open>0xC2\<close> to \<^verbatim>\<open>0xDF\<close> start a sequence of two bytes, \<^verbatim>\<open>0xE0\<close>
  to \<^verbatim>\<open>0xEF\<close> one of three, \<^verbatim>\<open>0xF0\<close> to \<^verbatim>\<open>0xF4\<close> one of four; the second byte lies in a range that
  depends on the first, the others between \<^verbatim>\<open>0x80\<close> and \<^verbatim>\<open>0xBF\<close>. Where the sequence is cut short
  or a byte is out of its range, and for every other first byte, the first byte alone counts
  as one rune.
\<close>

definition inRange :: "nat \<Rightarrow> nat \<Rightarrow> char \<Rightarrow> bool" where
  "inRange lo hi b = (lo \<le> (of_char b :: nat) \<and> (of_char b :: nat) \<le> hi)"

definition runeSize :: "char \<Rightarrow> string \<Rightarrow> nat" where
  "runeSize c r =
     (let n = (of_char c :: nat) in
      if n < 0xC2 then 1
      else if n \<le> 0xDF then
        (case r of
           b1 # _ \<Rightarrow> if inRange 0x80 0xBF b1 then 2 else 1
         | _ \<Rightarrow> 1)
      else if n \<le> 0xEF then
        (case r of
           b1 # b2 # _ \<Rightarrow>
             if inRange (if n = 0xE0 then 0xA0 else 0x80) (if n = 0xED then 0x9F else 0xBF) b1
                \<and> inRange 0x80 0xBF b2
             then 3 else 1
         | _ \<Rightarrow> 1)
      else if n \<le> 0xF4 then
        (case r of
           b1 # b2 # b3 # _ \<Rightarrow>
             if inRange (if n = 0xF0 then 0x90 else 0x80) (if n = 0xF4 then 0x8F else 0xBF) b1
                \<and> inRange 0x80 0xBF b2 \<and> inRange 0x80 0xBF b3
             then 4 else 1
         | _ \<Rightarrow> 1)
      else 1)"

text \<open>\<^verbatim>\<open>utf8.RuneCountInString\<close>\<close>

fun runeCount :: "string \<Rightarrow> nat" where
  "runeCount [] = 0"
| "runeCount (c # r) = Suc (runeCount (drop (runeSize c r - 1) r))"

text \<open>The flag \<^verbatim>\<open>-\<close> with a width, as in \<^verbatim>\<open>%-7s\<close>: the text, then spaces up to the width,
  which is counted in runes; a text longer than the width is not cut.\<close>

definition padRight :: "nat \<Rightarrow> string \<Rightarrow> string" where
  "padRight w s = s @ replicate (w - runeCount s) CHR '' ''"

text \<open>\<^verbatim>\<open>net.JoinHostPort\<close>: a host with a colon is taken for a literal IPv6 address and put
  in brackets.\<close>

definition joinHostPort :: "string \<Rightarrow> string \<Rightarrow> string" where
  "joinHostPort host port =
     (if CHR '':'' \<in> set host then ''['' @ host @ '']:'' @ port else host @ '':'' @ port)"

subsection \<open>\<^verbatim>\<open>url.QueryEscape\<close>\<close>

definition isAlnum :: "char \<Rightarrow> bool" where
  "isAlnum c = (let n = (of_char c :: nat) in
     (97 \<le> n \<and> n \<le> 122) \<or> (65 \<le> n \<and> n \<le> 90) \<or> (48 \<le> n \<and> n \<le> 57))"

text \<open>\<^verbatim>\<open>shouldEscape\<close> in the mode \<^verbatim>\<open>encodeQueryComponent\<close>: letters, digits and the four
  marks \<^verbatim>\<open>- _ . ~\<close> stay, every other byte is escaped.\<close>

definition shouldEscape :: "char \<Rightarrow> bool" where
  "shouldEscape c = (\<not> (isAlnum c \<or> c \<in> set ''-_.~''))"

definition upperhex :: "nat \<Rightarrow> char" where
  "upperhex k = ''0123456789ABCDEF'' ! (k mod 16)"

definition escapeByte :: "char \<Rightarrow> string" where
  "escapeByte c =
     (if shouldEscape c then
        (if c = CHR '' '' then ''+''
         else [CHR ''%'', upperhex ((of_char c :: nat) div 16), upperhex ((of_char c :: nat) mod 16)])
      else [c])"

fun queryEscape :: "string \<Rightarrow> string" where
  "queryEscape [] = []"
| "queryEscape (c # cs) = escapeByte c @ queryEscape cs"

subsection \<open>Configuration and the report of the API server\<close>

record apiServerConfig =
  URL :: string

record cliConfig =
  Timeout :: int
  APIServers :: "apiServerConfig list"

text \<open>
  Modelled from the spec: the types \<^verbatim>\<open>api.Info\<close>, \<^verbatim>\<open>api.Service\<close> and \<^verbatim>\<open>api.Destination\<close> of the
  package \<^verbatim>\<open>goloba/api\<close>, which \<^verbatim>\<open>main.go\<close> imports. The fields are the ones \<^verbatim>\<open>infoCommand\<close>
  reads; the numeric fields are printed with \<^verbatim>\<open>%d\<close> and are integers here, the two flags
  are booleans.
\<close>

record Destination =
  dAddress :: string
  dPort :: int
  Forward :: string
  Weight :: int
  ActiveConn :: int
  InactiveConn :: int
  Detached :: bool
  Locked :: bool

record Service =
  Protocol :: string
  Address :: string
  Port :: int
  Schedule :: string
  Destinations :: "Destination list"

record Info =
  Services :: "Service list"

subsection \<open>What a goroutine does, as a list of events\<close>

text \<open>
  The answer of \<^verbatim>\<open>httpClient.Get\<close>: an error, or a response whose body delivers its bytes in
  chunks (one per \<^verbatim>\<open>Read\<close>) and ends at EOF (\<open>None\<close>) or with a read error.
\<close>

datatype get_result =
    GetError string
  | GetOk "string list" "string option"

text \<open>
  The events of a run: the GET request with its URL, one write to \<^verbatim>\<open>os.Stdout\<close> and one
  write to \<^verbatim>\<open>os.Stderr\<close>. Every \<^verbatim>\<open>fmt.Printf\<close> formats into a buffer of its own and writes it
  with one call of \<^verbatim>\<open>Write\<close>.
\<close>

datatype event =
    Request string
  | Stdout string
  | Stderr string

text \<open>
  \<^verbatim>\<open>ioutil.ReadAll\<close> returns the bytes read so far together with the error, and
  \<^verbatim>\<open>json.Unmarshal\<close> returns its error. On either error the goroutine calls \<^verbatim>\<open>ltsvlog.Err\<close> on
  the wrapped error as a statement of its own. \<^verbatim>\<open>ltsvlog.Err\<close> builds an error value and
  writes nothing (the logger is \<^verbatim>\<open>ltsvlog.Logger\<close>, which \<^verbatim>\<open>main.go\<close> never calls), and the value
  is dropped: the error leaves no event, and the goroutine goes on with what it has.
\<close>

definition sendFailed :: "string \<Rightarrow> event list" where
  "sendFailed e = [Stderr (''failed to send request; '' @ e @ newline)]"

text \<open>\<^verbatim>\<open>fmt.Printf("%s:\n%s\n", s.URL, string(data))\<close>: the label and the body, formatted into
  one string and written with one write.\<close>

definition labelled :: "apiServerConfig \<Rightarrow> string \<Rightarrow> string" where
  "labelled s data = URL s @ '':'' @ newline @ data @ newline"

subsection \<open>\<^verbatim>\<open>infoCommand\<close>\<close>

definition headerLine :: string where
  "headerLine = ''Prot LocalAddress:Port Scheduler Flags'' @ newline"

definition columnLine :: string where
  "columnLine =
     ''  -> RemoteAddress:Port           Forward Weight ActiveConn InActConn Detached Locked''
     @ newline"

text \<open>\<^verbatim>\<open>fmt.Printf("%-4s %s:%d %s\n", sr.Protocol, sr.Address, sr.Port, sr.Schedule)\<close>\<close>

definition serviceRow :: "Service \<Rightarrow> string" where
  "serviceRow sr =
     padRight 4 (Protocol sr) @ '' '' @ Address sr @ '':'' @ itoa (Port sr) @ '' ''
     @ Schedule sr @ newline"

text \<open>\<^verbatim>\<open>fmt.Printf("  -> %-28s %-7s %-6d %-10d %-9d %-8v %v\n", hostPort, d.Forward, d.Weight,
  d.ActiveConn, d.InactiveConn, d.Detached, d.Locked)\<close>\<close>

definition destinationRow :: "Destination \<Rightarrow> string" where
  "destinationRow d =
     (let hostPort = joinHostPort (dAddress d) (itoa (dPort d)) in
      ''  -> '' @ padRight 28 hostPort @ '' '' @ padRight 7 (Forward d) @ '' ''
      @ padRight 6 (itoa (Weight d)) @ '' '' @ padRight 10 (itoa (ActiveConn d)) @ '' ''
      @ padRight 9 (itoa (InactiveConn d)) @ '' '' @ padRight 8 (showBool (Detached d)) @ '' ''
      @ showBool (Locked d) @ newline)"

text \<open>The body of the loop over \<^verbatim>\<open>info.Services\<close>: one \<^verbatim>\<open>Printf\<close> for the service, one for
  each of its destinations.\<close>

definition serviceWrites :: "Service \<Rightarrow> event list" where
  "serviceWrites sr = Stdout (serviceRow sr) # map (\<lambda>d. Stdout (destinationRow d)) (Destinations sr)"

text \<open>Lines 172 to 182: the label, the two heading lines, the services, \<^verbatim>\<open>fmt.Println()\<close>.\<close>

definition infoText :: "apiServerConfig \<Rightarrow> Info \<Rightarrow> event list" where
  "infoText s info =
     [Stdout (URL s @ '':'' @ newline), Stdout headerLine, Stdout columnLine]
     @ concat (map serviceWrites (Services info))
     @ [Stdout newline]"

text \<open>
  The goroutine of \<^verbatim>\<open>infoCommand\<close> for the server \<open>s\<close>. \<open>get\<close> is \<^verbatim>\<open>a.httpClient.Get\<close> as this
  goroutine meets it. \<open>unmarshal\<close> is \<^verbatim>\<open>json.Unmarshal\<close> into a zero \<^verbatim>\<open>api.Info\<close>: it gives the
  error, if any, and the value the variable \<^verbatim>\<open>info\<close> holds afterwards. The \<^verbatim>\<open>switch\<close> on the
  format has the cases \<^verbatim>\<open>"json"\<close> and \<^verbatim>\<open>"text"\<close> and no default.
\<close>

definition infoGoroutine ::
  "string \<Rightarrow> (string \<Rightarrow> string option \<times> Info) \<Rightarrow> (string \<Rightarrow> get_result)
     \<Rightarrow> apiServerConfig \<Rightarrow> event list" where
  "infoGoroutine format unmarshal get s =
     (let u = URL s @ ''/info'' in
      Request u #
      (case get u of
         GetError e \<Rightarrow> sendFailed e
       | GetOk chunks rerr \<Rightarrow>
           (let data = concat chunks in
            if format = ''json'' then [Stdout (labelled s data)]
            else if format = ''text'' then
              (case unmarshal data of (err, info) \<Rightarrow> infoText s info)
            else [])))"

text \<open>The loop \<^verbatim>\<open>for _, s := range a.config.APIServers\<close>: the goroutines in the order in
  which they are started; \<open>client i\<close> is the HTTP client as the goroutine \<open>i\<close> meets it.\<close>

definition startAll ::
  "cliConfig \<Rightarrow> ((string \<Rightarrow> get_result) \<Rightarrow> apiServerConfig \<Rightarrow> event list)
     \<Rightarrow> (nat \<Rightarrow> string \<Rightarrow> get_result) \<Rightarrow> event list list" where
  "startAll config body client =
     map (\<lambda>(i, s). body (client i) s) (enumerate 0 (APIServers config))"

definition infoCommand ::
  "cliConfig \<Rightarrow> string \<Rightarrow> (string \<Rightarrow> string option \<times> Info)
     \<Rightarrow> (nat \<Rightarrow> string \<Rightarrow> get_result) \<Rightarrow> event list list" where
  "infoCommand config format unmarshal client =
     startAll config (infoGoroutine format unmarshal) client"

subsection \<open>\<^verbatim>\<open>attachCommand\<close>, \<^verbatim>\<open>detachCommand\<close>, \<^verbatim>\<open>unlockCommand\<close>\<close>

text \<open>
  The flags \<^verbatim>\<open>-s\<close>, \<^verbatim>\<open>-d\<close> and \<^verbatim>\<open>-lock\<close> as given on the command line (\<open>None\<close>: not given).
  \<^verbatim>\<open>fs.String("s", "", ...)\<close>, \<^verbatim>\<open>fs.String("d", "", ...)\<close> and \<^verbatim>\<open>fs.Bool("lock", true, ...)\<close>
  set the values of the flags that are not given.
\<close>

record flags =
  flag_s :: "string option"
  flag_d :: "string option"
  flag_lock :: "bool option"

definition serviceAddr :: "flags \<Rightarrow> string" where
  "serviceAddr f = (case flag_s f of None \<Rightarrow> [] | Some v \<Rightarrow> v)"

definition destAddr :: "flags \<Rightarrow> string" where
  "destAddr f = (case flag_d f of None \<Rightarrow> [] | Some v \<Rightarrow> v)"

definition lock :: "flags \<Rightarrow> bool" where
  "lock f = (case flag_lock f of None \<Rightarrow> True | Some b \<Rightarrow> b)"

text \<open>The query of \<^verbatim>\<open>attach\<close> and \<^verbatim>\<open>detach\<close>: what the format string puts after the question
  mark.\<close>

definition lockQuery :: "flags \<Rightarrow> string" where
  "lockQuery f =
     ''service='' @ queryEscape (serviceAddr f) @ ''&dest='' @ queryEscape (destAddr f)
     @ ''&lock='' @ showBool (lock f)"

definition unlockQuery :: "flags \<Rightarrow> string" where
  "unlockQuery f =
     ''service='' @ queryEscape (serviceAddr f) @ ''&dest='' @ queryEscape (destAddr f)"

definition attachURL :: "apiServerConfig \<Rightarrow> flags \<Rightarrow> string" where
  "attachURL s f = URL s @ ''/attach?'' @ lockQuery f"

definition detachURL :: "apiServerConfig \<Rightarrow> flags \<Rightarrow> string" where
  "detachURL s f = URL s @ ''/detach?'' @ lockQuery f"

definition unlockURL :: "apiServerConfig \<Rightarrow> flags \<Rightarrow> string" where
  "unlockURL s f = URL s @ ''/unlock?'' @ unlockQuery f"

text \<open>The part of the goroutine that \<^verbatim>\<open>attach\<close> and \<^verbatim>\<open>detach\<close> have in common, from the
  request on: the whole body is read, then printed below the label with one \<^verbatim>\<open>Printf\<close>.\<close>

definition labelledBody :: "string \<Rightarrow> (string \<Rightarrow> get_result) \<Rightarrow> apiServerConfig \<Rightarrow> event list" where
  "labelledBody u get s =
     Request u #
     (case get u of
        GetError e \<Rightarrow> sendFailed e
      | GetOk chunks rerr \<Rightarrow> [Stdout (labelled s (concat chunks))])"

definition attachGoroutine :: "flags \<Rightarrow> (string \<Rightarrow> get_result) \<Rightarrow> apiServerConfig \<Rightarrow> event list" where
  "attachGoroutine f get s = labelledBody (attachURL s f) get s"

definition detachGoroutine :: "flags \<Rightarrow> (string \<Rightarrow> get_result) \<Rightarrow> apiServerConfig \<Rightarrow> event list" where
  "detachGoroutine f get s = labelledBody (detachURL s f) get s"

text \<open>
  \<^verbatim>\<open>io.Copy(os.Stdout, resp.Body)\<close>: every chunk that a \<^verbatim>\<open>Read\<close> delivers is written at once
  (nothing is written for an empty one); the copy ends at EOF or at the read error, and its
  result is dropped.
\<close>

definition ioCopy :: "string list \<Rightarrow> event list" where
  "ioCopy chunks = map Stdout (filter (\<lambda>c. c \<noteq> []) chunks)"

definition unlockGoroutine :: "flags \<Rightarrow> (string \<Rightarrow> get_result) \<Rightarrow> apiServerConfig \<Rightarrow> event list" where
  "unlockGoroutine f get s =
     (let u = unlockURL s f in
      Request u #
      (case get u of
         GetError e \<Rightarrow> sendFailed e
       | GetOk chunks rerr \<Rightarrow> ioCopy chunks))"

definition attachCommand ::
  "cliConfig \<Rightarrow> flags \<Rightarrow> (nat \<Rightarrow> string \<Rightarrow> get_result) \<Rightarrow> event list list" where
  "attachCommand config f client = startAll config (attachGoroutine f) client"

definition detachCommand ::
  "cliConfig \<Rightarrow> flags \<Rightarrow> (nat \<Rightarrow> string \<Rightarrow> get_result) \<Rightarrow> event list list" where
  "detachCommand config f client = startAll config (detachGoroutine f) client"

definition unlockCommand ::
  "cliConfig \<Rightarrow> flags \<Rightarrow> (nat \<Rightarrow> string \<Rightarrow> get_result) \<Rightarrow> event list list" where
  "unlockCommand config f client = startAll config (unlockGoroutine f) client"

subsection \<open>\<^verbatim>\<open>main\<close>: the subcommands\<close>

text \<open>
  The \<^verbatim>\<open>switch args[0]\<close> of \<^verbatim>\<open>main\<close> with the flags of the subcommand parsed. Any other first
  argument prints the usage and exits before a request is sent.
\<close>

datatype invocation =
    InfoArgs string
  | DetachArgs flags
  | AttachArgs flags
  | UnlockArgs flags

definition command ::
  "cliConfig \<Rightarrow> (string \<Rightarrow> string option \<times> Info) \<Rightarrow> invocation
     \<Rightarrow> (nat \<Rightarrow> string \<Rightarrow> get_result) \<Rightarrow> event list list" where
  "command config unmarshal cmd client =
     (case cmd of
        InfoArgs format \<Rightarrow> infoCommand config format unmarshal client
      | DetachArgs f \<Rightarrow> detachCommand config f client
      | AttachArgs f \<Rightarrow> attachCommand config f client
      | UnlockArgs f \<Rightarrow> unlockCommand config f client)"

text \<open>The goroutine that a subcommand starts for a server.\<close>

definition bodyOf ::
  "(string \<Rightarrow> string option \<times> Info) \<Rightarrow> invocation \<Rightarrow> (string \<Rightarrow> get_result)
     \<Rightarrow> apiServerConfig \<Rightarrow> event list" where
  "bodyOf unmarshal cmd =
     (case cmd of
        InfoArgs format \<Rightarrow> infoGoroutine format unmarshal
      | DetachArgs f \<Rightarrow> detachGoroutine f
      | AttachArgs f \<Rightarrow> attachGoroutine f
      | UnlockArgs f \<Rightarrow> unlockGoroutine f)"

text \<open>The subcommands whose goroutine prints with a single \<^verbatim>\<open>Printf\<close>, if it prints.\<close>

definition singleWrite :: "invocation \<Rightarrow> bool" where
  "singleWrite cmd =
     (case cmd of
        InfoArgs format \<Rightarrow> format \<noteq> ''text''
      | DetachArgs f \<Rightarrow> True
      | AttachArgs f \<Rightarrow> True
      | UnlockArgs f \<Rightarrow> False)"

text \<open>The URL that the goroutine of a subcommand builds for the server \<open>s\<close>.\<close>

definition requestURL :: "invocation \<Rightarrow> apiServerConfig \<Rightarrow> string" where
  "requestURL cmd s =
     (case cmd of
        InfoArgs format \<Rightarrow> URL s @ ''/info''
      | DetachArgs f \<Rightarrow> detachURL s f
      | AttachArgs f \<Rightarrow> attachURL s f
      | UnlockArgs f \<Rightarrow> unlockURL s f)"

subsection \<open>Goroutines and the \<^verbatim>\<open>sync.WaitGroup\<close>\<close>

text \<open>
  A goroutine runs its events one after the other and ends with the deferred \<^verbatim>\<open>wg.Done()\<close>,
  also when it returns early after a failed request.
\<close>

datatype action = Emit event | WgDone

definition goroutine :: "event list \<Rightarrow> action list" where
  "goroutine es = map Emit es @ [WgDone]"

text \<open>
  The main goroutine is in the loop with the bodies that it has still to start (with none
  left it stands at \<^verbatim>\<open>wg.Wait()\<close>), or it has returned from the command.
\<close>

datatype mainpc = Loop "event list list" | Returned

text \<open>The trace holds every event with the index of the goroutine it comes from.\<close>

record state =
  mainpc :: mainpc
  wg :: nat
  goroutines :: "action list list"
  trace :: "(nat \<times> event) list"

definition init :: "event list list \<Rightarrow> state" where
  "init us = \<lparr>mainpc = Loop us, wg = 0, goroutines = [], trace = []\<rparr>"

text \<open>
  The scheduler picks the main goroutine or one of the started ones. One step of main is
  \<^verbatim>\<open>wg.Add(1)\<close> with the \<^verbatim>\<open>go\<close> statement that follows it, or the return from \<^verbatim>\<open>wg.Wait()\<close>,
  possible only when the counter is zero. One step of a goroutine is its next event, or its
  \<^verbatim>\<open>wg.Done()\<close>, which panics on a counter that is zero. \<open>None\<close>: the choice cannot run.
\<close>

datatype choice = Main | Goroutine nat

fun step :: "choice \<Rightarrow> state \<Rightarrow> state option" where
  "step Main s =
     (case mainpc s of
        Loop (u # us) \<Rightarrow>
          Some (s\<lparr>mainpc := Loop us, wg := wg s + 1, goroutines := goroutines s @ [goroutine u]\<rparr>)
      | Loop [] \<Rightarrow> if wg s = 0 then Some (s\<lparr>mainpc := Returned\<rparr>) else None
      | Returned \<Rightarrow> None)"
| "step (Goroutine i) s =
     (if mainpc s = Returned \<or> length (goroutines s) \<le> i then None
      else
        (case goroutines s ! i of
           [] \<Rightarrow> None
         | Emit e # rest \<Rightarrow>
             Some (s\<lparr>goroutines := (goroutines s)[i := rest], trace := trace s @ [(i, e)]\<rparr>)
         | WgDone # rest \<Rightarrow>
             if wg s = 0 then None
             else Some (s\<lparr>goroutines := (goroutines s)[i := rest], wg := wg s - 1\<rparr>)))"

fun run :: "choice list \<Rightarrow> state \<Rightarrow> state option" where
  "run [] s = Some s"
| "run (c # cs) s = (case step c s of None \<Rightarrow> None | Some s' \<Rightarrow> run cs s')"

text \<open>A run of a command from its start to its return, under the schedule \<open>sch\<close>.\<close>

definition completes :: "event list list \<Rightarrow> choice list \<Rightarrow> state \<Rightarrow> bool" where
  "completes us sch s \<longleftrightarrow> run sch (init us) = Some s \<and> mainpc s = Returned"

subsection \<open>Reading a trace\<close>

text \<open>The events of the goroutine \<open>i\<close>, in the order of the trace.\<close>

definition eventsOf :: "nat \<Rightarrow> (nat \<times> event) list \<Rightarrow> event list" where
  "eventsOf i tr = map snd (filter (\<lambda>p. fst p = i) tr)"

fun writes :: "event list \<Rightarrow> string list" where
  "writes [] = []"
| "writes (Stdout w # es) = w # writes es"
| "writes (e # es) = writes es"

fun requests :: "event list \<Rightarrow> string list" where
  "requests [] = []"
| "requests (Request u # es) = u # requests es"
| "requests (e # es) = requests es"

fun diagnostics :: "event list \<Rightarrow> string list" where
  "diagnostics [] = []"
| "diagnostics (Stderr w # es) = w # diagnostics es"
| "diagnostics (e # es) = diagnostics es"

text \<open>What standard output holds after a trace: the writes, one after the other.\<close>

definition stdout :: "(nat \<times> event) list \<Rightarrow> string" where
  "stdout tr = concat (writes (map snd tr))"

fun emits :: "action list \<Rightarrow> event list" where
  "emits [] = []"
| "emits (Emit e # as) = e # emits as"
| "emits (WgDone # as) = emits as"

definition live :: "action list \<Rightarrow> nat" where
  "live g = (if g = [] then 0 else 1)"

text \<open>
  The invariant of the runs of a command with the bodies \<open>us\<close>: the events of a goroutine
  that are in the trace, followed by those it has still to run, are its body; the counter
  of the wait group is the number of goroutines that have not run \<^verbatim>\<open>wg.Done()\<close>.
\<close>

definition invariant :: "event list list \<Rightarrow> state \<Rightarrow> bool" where
  "invariant us s \<longleftrightarrow>
     (\<forall>p \<in> set (trace s). fst p < length (goroutines s))
   \<and> (\<forall>i < length (goroutines s). eventsOf i (trace s) @ emits (goroutines s ! i) = us ! i)
   \<and> (\<forall>g \<in> set (goroutines s). g = [] \<or> (\<exists>es. g = goroutine es))
   \<and> wg s = sum_list (map live (goroutines s))
   \<and> length (goroutines s) \<le> length us
   \<and> (case mainpc s of
        Loop rest \<Rightarrow> rest = drop (length (goroutines s)) us
      | Returned \<Rightarrow> length (goroutines s) = length us \<and> wg s = 0)"

text \<open>The number of steps that a state has still before it.\<close>

definition remaining :: "state \<Rightarrow> nat" where
  "remaining s =
     (case mainpc s of
        Loop us \<Rightarrow> 1 + sum_list (map (\<lambda>u. length u + 2) us)
      | Returned \<Rightarrow> 0)
     + sum_list (map length (goroutines s))"

subsection \<open>The parameters of a query\<close>

text \<open>
  The query as the server takes it apart: cut at every \<^verbatim>\<open>&\<close>, each part cut at its first
  \<^verbatim>\<open>=\<close> into a name and a value, empty parts skipped.
\<close>

fun splitOn :: "char \<Rightarrow> string \<Rightarrow> string list" where
  "splitOn c [] = [[]]"
| "splitOn c (x # xs) =
     (if x = c then [] # splitOn c xs
      else (case splitOn c xs of [] \<Rightarrow> [[x]] | w # ws \<Rightarrow> (x # w) # ws))"

definition keyValue :: "string \<Rightarrow> string \<times> string" where
  "keyValue p = (takeWhile (\<lambda>c. c \<noteq> CHR ''='') p, drop 1 (dropWhile (\<lambda>c. c \<noteq> CHR ''='') p))"

definition rawParams :: "string \<Rightarrow> (string \<times> string) list" where
  "rawParams q = map keyValue (filter (\<lambda>p. p \<noteq> []) (splitOn CHR ''&'' q))"

text \<open>The query of a URL: what follows its first question mark, up to a \<^verbatim>\<open>#\<close>.\<close>

definition urlQuery :: "string \<Rightarrow> string" where
  "urlQuery u = drop 1 (dropWhile (\<lambda>c. c \<noteq> CHR ''?'') (takeWhile (\<lambda>c. c \<noteq> CHR ''#'') u))"

text \<open>\<^verbatim>\<open>url.QueryUnescape\<close>: \<^verbatim>\<open>%\<close> with two hexadecimal digits is one byte, \<^verbatim>\<open>+\<close> is a space;
  \<^verbatim>\<open>%\<close> without two hexadecimal digits is an error.\<close>

definition unhex :: "char \<Rightarrow> nat option" where
  "unhex c = (let n = (of_char c :: nat) in
     if 48 \<le> n \<and> n \<le> 57 then Some (n - 48)
     else if 97 \<le> n \<and> n \<le> 102 then Some (n - 97 + 10)
     else if 65 \<le> n \<and> n \<le> 70 then Some (n - 65 + 10)
     else None)"

fun queryUnescape :: "string \<Rightarrow> string option" where
  "queryUnescape [] = Some []"
| "queryUnescape (c # cs) =
     (if c = CHR ''%'' then
        (case cs of
           a # b # rest \<Rightarrow>
             (case (unhex a, unhex b) of
                (Some h, Some l) \<Rightarrow>
                  (case queryUnescape rest of
                     None \<Rightarrow> None
                   | Some r \<Rightarrow> Some (char_of (16 * h + l) # r))
              | _ \<Rightarrow> None)
         | _ \<Rightarrow> None)
      else
        (case queryUnescape cs of
           None \<Rightarrow> None
         | Some r \<Rightarrow> Some ((if c = CHR ''+'' then CHR '' '' else c) # r)))"

subsection \<open>Examples\<close>

text \<open>
  \<^verbatim>\<open>json.Unmarshal\<close> on the two bodies of the examples: \<^verbatim>\<open>{}\<close> is a report without services;
  a body that is not JSON is a syntax error and leaves the variable \<^verbatim>\<open>info\<close> at its zero value.
\<close>

definition exampleUnmarshal :: "string \<Rightarrow> string option \<times> Info" where
  "exampleUnmarshal data =
     (if data = ''{}'' then (None, \<lparr>Services = []\<rparr>)
      else (Some ''invalid character'', \<lparr>Services = []\<rparr>))"

definition exampleConfig :: cliConfig where
  "exampleConfig =
     \<lparr>Timeout = 0, APIServers = [\<lparr>URL = ''http://a:8880''\<rparr>, \<lparr>URL = ''http://b:8880''\<rparr>]\<rparr>"

definition serverA :: apiServerConfig where
  "serverA = \<lparr>URL = ''http://a:8880''\<rparr>"

definition emptyConfig :: cliConfig where
  "emptyConfig = \<lparr>Timeout = 0, APIServers = []\<rparr>"

text \<open>A schedule for two servers: main starts both goroutines, the two take \<open>n\<close> steps each
  in turn, main returns.\<close>

definition alternating :: "nat \<Rightarrow> choice list" where
  "alternating n = [Main, Main] @ concat (replicate n [Goroutine 0, Goroutine 1]) @ [Main]"

text \<open>Every server answers with the body \<^verbatim>\<open>{}\<close> in one chunk.\<close>

definition exampleClient :: "nat \<Rightarrow> string \<Rightarrow> get_result" where
  "exampleClient i u = GetOk [''{}''] None"

text \<open>The connection breaks after the bytes \<^verbatim>\<open>par\<close> of the body.\<close>

definition brokenGet :: "string \<Rightarrow> get_result" where
  "brokenGet u = GetOk [''par''] (Some ''unexpected EOF'')"

text \<open>The same bytes arrive as the whole body.\<close>

definition completeGet :: "string \<Rightarrow> get_result" where
  "completeGet u = GetOk [''par''] None"

definition refusedGet :: "string \<Rightarrow> get_result" where
  "refusedGet u = GetError ''connection refused''"

text \<open>The connection of the first server breaks after the bytes \<^verbatim>\<open>par\<close>, the others answer
  with \<^verbatim>\<open>{}\<close>.\<close>

definition breakingClient :: "nat \<Rightarrow> string \<Rightarrow> get_result" where
  "breakingClient i u =
     (if i = 0 then GetOk [''par''] (Some ''unexpected EOF'') else GetOk [''{}''] None)"

text \<open>The first server answers with a body that is not JSON, the others with \<^verbatim>\<open>{}\<close>.\<close>

definition garbageClient :: "nat \<Rightarrow> string \<Rightarrow> get_result" where
  "garbageClient i u = (if i = 0 then GetOk [''oops''] None else GetOk [''{}''] None)"

text \<open>The body is not JSON.\<close>

definition garbageGet :: "string \<Rightarrow> get_result" where
  "garbageGet u = GetOk [''oops''] None"

definition emptyReportGet :: "string \<Rightarrow> get_result" where
  "emptyReportGet u = GetOk [''{}''] None"

text \<open>The service and the destination of the example in the comment of \<^verbatim>\<open>infoCommand\<close>.\<close>

definition exampleDestination :: Destination where
  "exampleDestination =
     \<lparr>dAddress = ''192.168.122.62'', dPort = 80, Forward = ''droute'', Weight = 100,
      ActiveConn = 0, InactiveConn = 0, Detached = True, Locked = False\<rparr>"

definition exampleService :: Service where
  "exampleService =
     \<lparr>Protocol = ''tcp'', Address = ''192.168.122.2'', Port = 80, Schedule = ''wrr'',
      Destinations = [exampleDestination]\<rparr>"

text \<open>\<^verbatim>\<open>json.Unmarshal\<close> on a body that holds the service of the example.\<close>

definition exampleReportUnmarshal :: "string \<Rightarrow> string option \<times> Info" where
  "exampleReportUnmarshal data = (None, \<lparr>Services = [exampleService]\<rparr>)"

definition noFlags :: flags where
  "noFlags = \<lparr>flag_s = None, flag_d = None, flag_lock = None\<rparr>"

definition exampleFlags :: flags where
  "exampleFlags =
     \<lparr>flag_s = Some ''192.168.122.2:80'', flag_d = Some ''192.168.122.62:80'', flag_lock = None\<rparr>"

section \<open>Runs of a command\<close>

subsection \<open>The invariant is kept by every step\<close>

lemma emits_goroutine [simp]: "emits (goroutine es) = es"
  by (induction es) (simp_all add: goroutine_def)

lemma inv_init: "invariant us (init us)"
  by (simp add: invariant_def init_def)

lemma eventsOf_append [simp]: "eventsOf i (xs @ ys) = eventsOf i xs @ eventsOf i ys"
  by (simp add: eventsOf_def)

lemma eventsOf_fresh: "\<forall>p \<in> set tr. fst p < n \<Longrightarrow> n \<le> i \<Longrightarrow> eventsOf i tr = []"
  by (auto simp: eventsOf_def filter_empty_conv)

lemma goroutine_tl:
  "goroutine es = a # rest \<Longrightarrow> (a = WgDone \<and> rest = [] \<and> es = []) \<or> (\<exists>e es'. a = Emit e \<and> es = e # es' \<and> rest = goroutine es')"
  by (cases es) (auto simp: goroutine_def)

lemma inv_step_main:
  assumes "invariant us s" "step Main s = Some s'"
  shows "invariant us s'"
proof (cases "mainpc s")
  case (Loop rest)
  show ?thesis
  proof (cases rest)
    case Nil
    with Loop assms show ?thesis
      by (fastforce simp: invariant_def split: if_splits)
  next
    case (Cons u rest')
    have s': "s' = s\<lparr>mainpc := Loop rest', wg := wg s + 1, goroutines := goroutines s @ [goroutine u]\<rparr>"
      using assms(2) Loop Cons by simp
    have d: "u # rest' = drop (length (goroutines s)) us"
      using assms(1) Loop Cons by (simp add: invariant_def)
    have lt: "length (goroutines s) < length us"
      using d by (metis drop_eq_Nil2 list.distinct(1) not_le)
    have u: "u = us ! length (goroutines s)"
      using d lt by (metis hd_drop_conv_nth list.sel(1))
    have r: "rest' = drop (Suc (length (goroutines s))) us"
      using d by (metis drop_Suc list.sel(3) tl_drop)
    show ?thesis
      unfolding invariant_def s' using assms(1) lt u r
      apply (simp add: invariant_def)
      apply (intro conjI)
      subgoal by (auto)
      subgoal by (auto simp: nth_append less_Suc_eq eventsOf_fresh)
      subgoal by auto
      subgoal by (simp add: live_def goroutine_def)
      done
  qed
next
  case Returned
  with assms show ?thesis by simp
qed

lemma sum_list_map_update:
  fixes f :: "'a \<Rightarrow> nat"
  shows "i < length gs \<Longrightarrow> sum_list (map f (gs[i := g])) + f (gs ! i) = sum_list (map f gs) + f g"
proof (induction gs arbitrary: i)
  case Nil
  then show ?case by simp
next
  case (Cons a gs)
  then show ?case by (cases i) auto
qed

lemma inv_step_goroutine:
  assumes "invariant us s" "step (Goroutine i) s = Some s'"
  shows "invariant us s'"
proof -
  from assms(2) have i: "i < length (goroutines s)" and nr: "mainpc s \<noteq> Returned"
    by (auto split: if_splits)
  from assms(2) i obtain a rest where g: "goroutines s ! i = a # rest"
    by (cases "goroutines s ! i") (auto split: if_splits)
  from assms(1) i have "goroutines s ! i = [] \<or> (\<exists>es. goroutines s ! i = goroutine es)"
    by (simp add: invariant_def)
  with g obtain es where es: "goroutine es = a # rest" by auto
  from nr obtain pend where pend: "mainpc s = Loop pend" by (cases "mainpc s") auto
  from goroutine_tl [OF es] show ?thesis
  proof (elim disjE conjE exE)
    assume a: "a = WgDone" "rest = []" "es = []"
    with assms(2) i g nr have wg: "wg s \<noteq> 0"
      and s': "s' = s\<lparr>goroutines := (goroutines s)[i := []], wg := wg s - 1\<rparr>"
      by (auto split: if_splits)
    have sum: "sum_list (map live ((goroutines s)[i := []])) + 1 = sum_list (map live (goroutines s))"
      using sum_list_map_update [OF i, of live "[]"] g by (simp add: live_def)
    show ?thesis
      unfolding s' using assms(1) i g a pend sum
      apply (simp add: invariant_def)
      apply (intro conjI)
      subgoal by (auto simp: nth_list_update)
      subgoal by (auto dest: set_update_subset_insert [THEN subsetD])
      subgoal by arith
      done
  next
    fix e es'
    assume a: "a = Emit e" "es = e # es'" "rest = goroutine es'"
    with assms(2) i g nr have
      s': "s' = s\<lparr>goroutines := (goroutines s)[i := rest], trace := trace s @ [(i, e)]\<rparr>"
      by (auto split: if_splits)
    have sum: "sum_list (map live ((goroutines s)[i := rest])) = sum_list (map live (goroutines s))"
      using sum_list_map_update [OF i, of live rest] g a by (simp add: live_def goroutine_def)
    show ?thesis
      unfolding s' using assms(1) i g a pend sum
      apply (simp add: invariant_def)
      apply (intro conjI)
      subgoal by (auto simp: nth_list_update eventsOf_def)
      subgoal by (auto dest: set_update_subset_insert [THEN subsetD])
      done
  qed
qed

lemma inv_step: "invariant us s \<Longrightarrow> step c s = Some s' \<Longrightarrow> invariant us s'"
  by (cases c) (auto intro: inv_step_main inv_step_goroutine)

lemma inv_run_from: "invariant us s \<Longrightarrow> run sch s = Some s' \<Longrightarrow> invariant us s'"
proof (induction sch arbitrary: s)
  case Nil
  then show ?case by simp
next
  case (Cons c sch)
  then show ?case by (auto split: option.splits dest: inv_step)
qed

lemma inv_run: "run sch (init us) = Some s \<Longrightarrow> invariant us s"
  using inv_run_from [OF inv_init] .

lemma live_zero: "sum_list (map live gs) = 0 \<Longrightarrow> g \<in> set gs \<Longrightarrow> g = []"
  by (induction gs) (auto simp: live_def split: if_splits)

lemma inv_returned:
  assumes "invariant us s" "mainpc s = Returned"
  shows "length (goroutines s) = length us"
    and "\<forall>g \<in> set (goroutines s). g = []"
    and "\<forall>i < length us. eventsOf i (trace s) = us ! i"
    and "\<forall>p \<in> set (trace s). fst p < length us"
proof -
  from assms show len: "length (goroutines s) = length us" by (simp add: invariant_def)
  from assms have "\<forall>g \<in> set (goroutines s). live g = 0" by (auto simp: invariant_def)
  then show e: "\<forall>g \<in> set (goroutines s). g = []" by (auto simp: live_def split: if_splits)
  then have "\<forall>i < length us. emits (goroutines s ! i) = []" using len by (metis emits.simps(1) nth_mem)
  moreover from assms(1) len have "\<forall>i < length us. eventsOf i (trace s) @ emits (goroutines s ! i) = us ! i"
    by (simp add: invariant_def)
  ultimately show "\<forall>i < length us. eventsOf i (trace s) = us ! i" by simp
  from assms(1) len show "\<forall>p \<in> set (trace s). fst p < length us" by (simp add: invariant_def)
qed


lemma step_decreases: "step c s = Some s' \<Longrightarrow> remaining s' < remaining s"
proof (cases c)
  case Main
  assume "step c s = Some s'"
  with Main show ?thesis
    by (auto simp: remaining_def goroutine_def split: mainpc.splits list.splits if_splits)
next
  case (Goroutine i)
  assume st: "step c s = Some s'"
  with Goroutine have i: "i < length (goroutines s)" by (auto split: if_splits)
  have upd: "\<And>r. sum_list (map length ((goroutines s)[i := r])) + length (goroutines s ! i)
      = sum_list (map length (goroutines s)) + length r"
    using sum_list_map_update [OF i, of length] by simp
  show ?thesis
  proof (cases "goroutines s ! i")
    case Nil
    with st Goroutine show ?thesis by (auto split: if_splits)
  next
    case (Cons a rest)
    with st Goroutine upd [of rest] show ?thesis
      by (cases a) (auto simp: remaining_def split: if_splits mainpc.splits)
  qed
qed

lemma run_bounded: "run sch s = Some s' \<Longrightarrow> length sch + remaining s' \<le> remaining s"
proof (induction sch arbitrary: s)
  case Nil
  then show ?case by simp
next
  case (Cons c sch)
  then obtain s1 where s1: "step c s = Some s1" "run sch s1 = Some s'"
    by (auto split: option.splits)
  from Cons.IH [OF s1(2)] step_decreases [OF s1(1)] show ?case by simp
qed

lemma progress:
  assumes "invariant us s" "mainpc s \<noteq> Returned"
  shows "\<exists>c s'. step c s = Some s'"
proof -
  from assms(2) obtain rest where l: "mainpc s = Loop rest" by (cases "mainpc s") auto
  show ?thesis
  proof (cases rest)
    case (Cons u rest')
    with l have "step Main s \<noteq> None" by simp
    then show ?thesis by blast
  next
    case Nil
    show ?thesis
    proof (cases "wg s = 0")
      case True
      with l Nil have "step Main s \<noteq> None" by simp
      then show ?thesis by blast
    next
      case False
      with assms(1) have "sum_list (map live (goroutines s)) \<noteq> 0" by (simp add: invariant_def)
      then obtain g where g: "g \<in> set (goroutines s)" "g \<noteq> []"
        by (auto simp: live_def split: if_splits)
      then obtain i where i: "i < length (goroutines s)" "goroutines s ! i = g"
        by (auto simp: in_set_conv_nth)
      from g(2) obtain a r where ar: "g = a # r" by (cases g) auto
      with i l False have "step (Goroutine i) s \<noteq> None"
        by (cases a) auto
      then show ?thesis by blast
    qed
  qed
qed

lemma run_append: "run (xs @ ys) s = (case run xs s of None \<Rightarrow> None | Some s' \<Rightarrow> run ys s')"
  by (induction xs arbitrary: s) (auto split: option.splits)

lemma reaches_return:
  "invariant us s \<Longrightarrow> \<exists>sch s'. run sch s = Some s' \<and> mainpc s' = Returned"
proof (induction "remaining s" arbitrary: s rule: less_induct)
  case less
  show ?case
  proof (cases "mainpc s = Returned")
    case True
    then have "run [] s = Some s \<and> mainpc s = Returned" by simp
    then show ?thesis by blast
  next
    case False
    from progress [OF less.prems False] obtain c s1 where st: "step c s = Some s1" by blast
    from less.hyps [OF step_decreases [OF st] inv_step [OF less.prems st]]
    obtain sch s' where "run sch s1 = Some s'" "mainpc s' = Returned" by blast
    with st have "run (c # sch) s = Some s' \<and> mainpc s' = Returned" by simp
    then show ?thesis by blast
  qed
qed

lemma command_returns: "\<exists>sch s. completes us sch s"
  using reaches_return [OF inv_init] by (simp add: completes_def)

subsection \<open>The goroutines of a command\<close>

lemma length_startAll [simp]: "length (startAll config body client) = length (APIServers config)"
  by (simp add: startAll_def)

lemma nth_startAll:
  "i < length (APIServers config) \<Longrightarrow>
     startAll config body client ! i = body (client i) (APIServers config ! i)"
  by (simp add: startAll_def nth_enumerate_eq)

lemma command_startAll: "command config unmarshal cmd client = startAll config (bodyOf unmarshal cmd) client"
  by (cases cmd)
    (simp_all add: command_def bodyOf_def infoCommand_def attachCommand_def detachCommand_def
      unlockCommand_def)

lemma length_command [simp]:
  "length (command config unmarshal cmd client) = length (APIServers config)"
  by (simp add: command_startAll)

lemma nth_command:
  "i < length (APIServers config) \<Longrightarrow>
     command config unmarshal cmd client ! i = bodyOf unmarshal cmd (client i) (APIServers config ! i)"
  by (simp add: command_startAll nth_startAll)

lemma requests_append [simp]: "requests (xs @ ys) = requests xs @ requests ys"
  by (induction xs rule: requests.induct) simp_all

lemma writes_append [simp]: "writes (xs @ ys) = writes xs @ writes ys"
  by (induction xs rule: writes.induct) simp_all

lemma diagnostics_append [simp]: "diagnostics (xs @ ys) = diagnostics xs @ diagnostics ys"
  by (induction xs rule: diagnostics.induct) simp_all

lemma requests_map_Stdout [simp]: "requests (map Stdout ws) = []"
  by (induction ws) simp_all

lemma writes_map_Stdout [simp]: "writes (map Stdout ws) = ws"
  by (induction ws) simp_all

lemma requests_sendFailed [simp]: "requests (sendFailed e) = []"
  by (simp add: sendFailed_def)

lemma requests_map_Stdout_fun [simp]: "requests (map (\<lambda>x. Stdout (f x)) xs) = []"
  by (induction xs) simp_all

lemma writes_map_Stdout_fun [simp]: "writes (map (\<lambda>x. Stdout (f x)) xs) = map f xs"
  by (induction xs) simp_all

lemma requests_serviceWrites [simp]: "requests (serviceWrites sr) = []"
  by (simp add: serviceWrites_def)

lemma requests_concat_serviceWrites [simp]: "requests (concat (map serviceWrites srs)) = []"
  by (induction srs) simp_all

lemma requests_infoText [simp]: "requests (infoText s info) = []"
  by (simp add: infoText_def)

lemma requests_bodyOf:
  "requests (bodyOf unmarshal cmd get s) = [requestURL cmd s]"
  by (cases cmd)
    (auto simp: bodyOf_def requestURL_def infoGoroutine_def attachGoroutine_def
      detachGoroutine_def unlockGoroutine_def labelledBody_def ioCopy_def Let_def
      split: get_result.splits prod.splits)

lemma requestURL_base: "\<exists>suffix. \<forall>s. requestURL cmd s = URL s @ suffix"
  by (cases cmd) (auto simp: requestURL_def attachURL_def detachURL_def unlockURL_def)

lemma eventsOf_Cons:
  "eventsOf i (p # tr) = (if fst p = i then snd p # eventsOf i tr else eventsOf i tr)"
  by (simp add: eventsOf_def)

lemma length_requests_Cons: "length (requests (e # es)) = length (requests [e]) + length (requests es)"
  by (cases e) simp_all

lemma count_requests:
  "\<forall>p \<in> set tr. fst p < n \<Longrightarrow>
     length (requests (map snd tr)) = (\<Sum>i < n. length (requests (eventsOf i tr)))"
proof (induction tr)
  case Nil
  then show ?case by (simp add: eventsOf_def)
next
  case (Cons p tr)
  then have p: "fst p < n" and IH: "length (requests (map snd tr)) = (\<Sum>i < n. length (requests (eventsOf i tr)))"
    by simp_all
  have "(\<Sum>i < n. length (requests (eventsOf i (p # tr))))
      = (\<Sum>i < n. (if fst p = i then length (requests [snd p]) else 0) + length (requests (eventsOf i tr)))"
    by (rule sum.cong) (auto simp: eventsOf_Cons length_requests_Cons [of "snd p" "eventsOf i tr" for i])
  also have "\<dots> = length (requests [snd p]) + (\<Sum>i < n. length (requests (eventsOf i tr)))"
    using p by (simp add: sum.distrib)
  finally show ?case using IH length_requests_Cons [of "snd p" "map snd tr"] by simp
qed

lemma completes_inv:
  assumes "completes us sch s"
  shows "length (goroutines s) = length us"
    and "\<forall>g \<in> set (goroutines s). g = []"
    and "\<forall>i < length us. eventsOf i (trace s) = us ! i"
    and "\<forall>p \<in> set (trace s). fst p < length us"
  using inv_returned [of us s] inv_run [of sch us s] assms by (simp_all add: completes_def)

section \<open>The claims\<close>

text \<open>
  C2. For a configuration with N servers (N = 0 included) and every subcommand, the command
  has N goroutines, each sends exactly one request, to the URL built for its server from the
  same arguments, which differs between servers only in the base URL in front. Some run
  reaches the return of the command, and in every run that reaches it all N goroutines have
  finished, each has run its whole body, and the trace holds exactly N requests; without
  servers the trace is empty. No run is longer than the number of steps that the command
  has at its start, and every run can be continued to the return of the command.
\<close>

theorem dispatch_one_request_per_target_and_join:
  "length (command config unmarshal cmd client) = length (APIServers config)
   \<and> (\<forall>i < length (APIServers config).
        requests (command config unmarshal cmd client ! i) = [requestURL cmd (APIServers config ! i)])
   \<and> (\<exists>suffix. \<forall>s. requestURL cmd s = URL s @ suffix)
   \<and> (\<exists>sch s. completes (command config unmarshal cmd client) sch s)
   \<and> (\<forall>sch s. completes (command config unmarshal cmd client) sch s \<longrightarrow>
        length (goroutines s) = length (APIServers config)
        \<and> (\<forall>g \<in> set (goroutines s). g = [])
        \<and> (\<forall>i < length (APIServers config).
             eventsOf i (trace s) = command config unmarshal cmd client ! i)
        \<and> length (requests (map snd (trace s))) = length (APIServers config)
        \<and> (APIServers config = [] \<longrightarrow> trace s = []))
   \<and> (\<forall>sch s. run sch (init (command config unmarshal cmd client)) = Some s \<longrightarrow>
        length sch \<le> remaining (init (command config unmarshal cmd client))
        \<and> (\<exists>sch' s'. run sch' s = Some s' \<and> mainpc s' = Returned))"
proof (intro conjI allI impI)
  show "length (command config unmarshal cmd client) = length (APIServers config)" by simp
next
  fix i assume "i < length (APIServers config)"
  then show "requests (command config unmarshal cmd client ! i) = [requestURL cmd (APIServers config ! i)]"
    by (simp add: nth_command requests_bodyOf)
next
  show "\<exists>suffix. \<forall>s. requestURL cmd s = URL s @ suffix" by (rule requestURL_base)
next
  show "\<exists>sch s. completes (command config unmarshal cmd client) sch s" by (rule command_returns)
next
  fix sch s
  assume c: "completes (command config unmarshal cmd client) sch s"
  note facts = completes_inv [OF c, simplified]
  show "length (goroutines s) = length (APIServers config)" by (rule facts(1))
  show "\<forall>g \<in> set (goroutines s). g = []" by (rule facts(2))
  show "\<And>i. i < length (APIServers config) \<Longrightarrow> eventsOf i (trace s) = command config unmarshal cmd client ! i"
    using facts(3) by blast
  have "length (requests (map snd (trace s)))
      = (\<Sum>i < length (APIServers config). length (requests (eventsOf i (trace s))))"
    using facts(4) by (intro count_requests) 
  also have "\<dots> = (\<Sum>i < length (APIServers config). 1)"
    by (rule sum.cong) (simp_all add: facts(3) nth_command requests_bodyOf)
  finally show "length (requests (map snd (trace s))) = length (APIServers config)" by simp
  show "APIServers config = [] \<Longrightarrow> trace s = []"
    using facts(4) by (cases "trace s") auto
next
  fix sch s
  assume r: "run sch (init (command config unmarshal cmd client)) = Some s"
  from run_bounded [OF r]
  show "length sch \<le> remaining (init (command config unmarshal cmd client))" by simp
  from reaches_return [OF inv_run [OF r]]
  show "\<exists>sch' s'. run sch' s = Some s' \<and> mainpc s' = Returned" .
qed


theorem dispatch_one_request_per_target_and_join_witness:
  "(case run (alternating 3)
          (init (command exampleConfig exampleUnmarshal (AttachArgs exampleFlags) exampleClient)) of
      None \<Rightarrow> False
    | Some s \<Rightarrow>
        mainpc s = Returned \<and> goroutines s = [[], []]
        \<and> length (requests (map snd (trace s))) = 2
        \<and> eventsOf 1 (trace s) =
            command exampleConfig exampleUnmarshal (AttachArgs exampleFlags) exampleClient ! 1)
   \<and> length (alternating 3)
       \<le> remaining (init (command exampleConfig exampleUnmarshal (AttachArgs exampleFlags) exampleClient))
   \<and> (case run [Main] (init (command emptyConfig exampleUnmarshal (AttachArgs exampleFlags) exampleClient)) of
      None \<Rightarrow> False
    | Some s \<Rightarrow> mainpc s = Returned \<and> trace s = [])"
proof -
  let ?us = "command exampleConfig exampleUnmarshal (AttachArgs exampleFlags) exampleClient"
  let ?vs = "command emptyConfig exampleUnmarshal (AttachArgs exampleFlags) exampleClient"
  have "case run (alternating 3) (init ?us) of None \<Rightarrow> False | Some s \<Rightarrow> mainpc s = Returned"
    by code_simp
  then obtain s where s: "run (alternating 3) (init ?us) = Some s" "mainpc s = Returned"
    by (auto split: option.splits)
  have "case run [Main] (init ?vs) of None \<Rightarrow> False | Some s \<Rightarrow> mainpc s = Returned"
    by code_simp
  then obtain t where t: "run [Main] (init ?vs) = Some t" "mainpc t = Returned"
    by (auto split: option.splits)
  have n: "length (APIServers exampleConfig) = 2" "(1::nat) < 2" "APIServers emptyConfig = []"
    by (simp_all add: exampleConfig_def emptyConfig_def)
  from s t have c: "completes ?us (alternating 3) s" "completes ?vs [Main] t"
    by (simp_all add: completes_def)
  from dispatch_one_request_per_target_and_join
         [of exampleConfig exampleUnmarshal "AttachArgs exampleFlags" exampleClient] c(1) n
  have 1: "length (goroutines s) = 2 \<and> (\<forall>g \<in> set (goroutines s). g = [])
        \<and> length (requests (map snd (trace s))) = 2 \<and> eventsOf 1 (trace s) = ?us ! 1"
    by auto
  from dispatch_one_request_per_target_and_join
         [of emptyConfig exampleUnmarshal "AttachArgs exampleFlags" exampleClient] c(2) n
  have 2: "trace t = []"
    by blast
  from 1 have 3: "goroutines s = [[], []]"
    by (cases "goroutines s"; cases "tl (goroutines s)") auto
  from dispatch_one_request_per_target_and_join
         [of exampleConfig exampleUnmarshal "AttachArgs exampleFlags" exampleClient] s(1)
  have 4: "length (alternating 3) \<le> remaining (init ?us)"
    by blast
  from 1 2 3 4 s t show ?thesis by simp
qed

lemma writes_sendFailed [simp]: "writes (sendFailed e) = []"
  by (simp add: sendFailed_def)

lemma diagnostics_map_Stdout_fun [simp]: "diagnostics (map (\<lambda>x. Stdout (f x)) xs) = []"
  by (induction xs) simp_all

lemma diagnostics_map_Stdout [simp]: "diagnostics (map Stdout ws) = []"
  by (induction ws) simp_all

lemma nth_infoCommand:
  "i < length (APIServers config) \<Longrightarrow>
     infoCommand config format unmarshal client ! i
       = infoGoroutine format unmarshal (client i) (APIServers config ! i)"
  by (simp add: infoCommand_def nth_startAll)

lemma length_infoCommand [simp]:
  "length (infoCommand config format unmarshal client) = length (APIServers config)"
  by (simp add: infoCommand_def)

lemma nth_unlockCommand:
  "i < length (APIServers config) \<Longrightarrow>
     unlockCommand config f client ! i = unlockGoroutine f (client i) (APIServers config ! i)"
  by (simp add: unlockCommand_def nth_startAll)

lemma length_unlockCommand [simp]:
  "length (unlockCommand config f client) = length (APIServers config)"
  by (simp add: unlockCommand_def)

lemma set_writes: "set (writes es) = {w. Stdout w \<in> set es}"
  by (induction es rule: writes.induct) auto

lemma set_eventsOf: "set (eventsOf i tr) = {e. (i, e) \<in> set tr}"
  by (force simp: eventsOf_def)

lemma writes_trace_empty:
  assumes "\<forall>i. writes (eventsOf i tr) = []"
  shows "writes (map snd tr) = []"
proof -
  have "set (writes (map snd tr)) = {}"
  proof (rule ccontr)
    assume "set (writes (map snd tr)) \<noteq> {}"
    then obtain w where "Stdout w \<in> set (map snd tr)" by (auto simp: set_writes)
    then obtain i where "(i, Stdout w) \<in> set tr" by auto
    then have "w \<in> set (writes (eventsOf i tr))" by (simp add: set_writes set_eventsOf)
    with assms show False by simp
  qed
  then show ?thesis by simp
qed

lemma eventsOf_outside:
  "\<forall>p \<in> set tr. fst p < n \<Longrightarrow> \<not> i < n \<Longrightarrow> eventsOf i tr = []"
  by (rule eventsOf_fresh) auto

text \<open>
  C5. With the format \<^verbatim>\<open>json\<close> the body is not decoded: whatever bytes the body delivers,
  the goroutine writes the URL of its server, a colon and a newline, these bytes unchanged,
  and a newline, in one write; in every run that returns this is what the goroutine of that
  server has written to standard output.
\<close>

theorem info_json_body_verbatim:
  "(get (URL s @ ''/info'') = GetOk chunks rerr \<longrightarrow>
      writes (infoGoroutine ''json'' unmarshal get s)
        = [URL s @ '':'' @ newline @ concat chunks @ newline])
   \<and> (completes (infoCommand config ''json'' unmarshal client) sch st
        \<and> i < length (APIServers config)
        \<and> client i (URL (APIServers config ! i) @ ''/info'') = GetOk chunks rerr \<longrightarrow>
      writes (eventsOf i (trace st))
        = [URL (APIServers config ! i) @ '':'' @ newline @ concat chunks @ newline])"
proof (intro conjI impI)
  assume "get (URL s @ ''/info'') = GetOk chunks rerr"
  then show "writes (infoGoroutine ''json'' unmarshal get s)
      = [URL s @ '':'' @ newline @ concat chunks @ newline]"
    by (simp add: infoGoroutine_def labelled_def)
next
  assume a: "completes (infoCommand config ''json'' unmarshal client) sch st
        \<and> i < length (APIServers config)
        \<and> client i (URL (APIServers config ! i) @ ''/info'') = GetOk chunks rerr"
  then have "eventsOf i (trace st) = infoGoroutine ''json'' unmarshal (client i) (APIServers config ! i)"
    using completes_inv(3) [of "infoCommand config ''json'' unmarshal client" sch st]
    by (simp add: nth_infoCommand)
  with a show "writes (eventsOf i (trace st))
        = [URL (APIServers config ! i) @ '':'' @ newline @ concat chunks @ newline]"
    by (simp add: infoGoroutine_def labelled_def)
qed

theorem info_json_body_verbatim_witness:
  "writes (infoGoroutine ''json'' exampleUnmarshal brokenGet \<lparr>URL = ''http://a:8880''\<rparr>)
     = [''http://a:8880:'' @ newline @ ''par'' @ newline]
   \<and> (case run (alternating 3) (init (infoCommand exampleConfig ''json'' exampleUnmarshal exampleClient)) of
        None \<Rightarrow> False
      | Some st \<Rightarrow> mainpc st = Returned
          \<and> writes (eventsOf 1 (trace st)) = [''http://b:8880:'' @ newline @ ''{}'' @ newline])"
proof -
  let ?us = "infoCommand exampleConfig ''json'' exampleUnmarshal exampleClient"
  have "case run (alternating 3) (init ?us) of None \<Rightarrow> False | Some s \<Rightarrow> mainpc s = Returned"
    by code_simp
  then obtain st where st: "run (alternating 3) (init ?us) = Some st" "mainpc st = Returned"
    by (auto split: option.splits)
  then have c: "completes ?us (alternating 3) st" by (simp add: completes_def)
  have g: "brokenGet (URL \<lparr>URL = ''http://a:8880''\<rparr> @ ''/info'') = GetOk [''par''] (Some ''unexpected EOF'')"
    by (simp add: brokenGet_def)
  have h: "(1::nat) < length (APIServers exampleConfig)"
    "exampleClient 1 (URL (APIServers exampleConfig ! 1) @ ''/info'') = GetOk [''{}''] None"
    "URL (APIServers exampleConfig ! 1) = ''http://b:8880''"
    by (simp_all add: exampleConfig_def exampleClient_def)
  from info_json_body_verbatim
         [of brokenGet "\<lparr>URL = ''http://a:8880''\<rparr>" "[''par'']" "Some ''unexpected EOF''"
             exampleUnmarshal exampleConfig exampleClient "alternating 3" st 1] g
  have 1: "writes (infoGoroutine ''json'' exampleUnmarshal brokenGet \<lparr>URL = ''http://a:8880''\<rparr>)
     = [''http://a:8880:'' @ newline @ ''par'' @ newline]"
    by simp
  from info_json_body_verbatim
         [where chunks = "[''{}'']" and rerr = None and unmarshal = exampleUnmarshal
             and config = exampleConfig and client = exampleClient and sch = "alternating 3"
             and st = st and i = 1] c h
  have 2: "writes (eventsOf 1 (trace st)) = [''http://b:8880:'' @ newline @ ''{}'' @ newline]"
    by simp
  from 1 2 st show ?thesis by simp
qed


lemma dispatch_count:
  "completes (command config unmarshal cmd client) sch s \<Longrightarrow>
     length (requests (map snd (trace s))) = length (APIServers config)"
proof -
  assume c: "completes (command config unmarshal cmd client) sch s"
  note facts = completes_inv [OF c, simplified]
  have "length (requests (map snd (trace s)))
      = (\<Sum>i < length (APIServers config). length (requests (eventsOf i (trace s))))"
    using facts(4) by (intro count_requests)
  also have "\<dots> = (\<Sum>i < length (APIServers config). 1)"
    by (rule sum.cong) (simp_all add: facts(3) nth_command requests_bodyOf)
  finally show ?thesis by simp
qed

lemma infoGoroutine_other_format:
  "format \<noteq> ''json'' \<Longrightarrow> format \<noteq> ''text'' \<Longrightarrow>
     infoGoroutine format unmarshal get s
       = Request (URL s @ ''/info'') #
         (case get (URL s @ ''/info'') of
            GetError e \<Rightarrow> sendFailed e
          | GetOk chunks rerr \<Rightarrow> [])"
  by (simp add: infoGoroutine_def split: get_result.splits)

text \<open>
  C9. With a format other than \<^verbatim>\<open>json\<close> and \<^verbatim>\<open>text\<close> the goroutine still sends its request and
  reads the body, and after a response, also one whose body is cut short by a read error, it
  does nothing more: it writes nothing to standard output. The command returns; in every run that returns standard output is empty and one request per server has
  been sent.
\<close>

theorem info_unknown_format_prints_nothing:
  "format \<noteq> ''json'' \<and> format \<noteq> ''text'' \<longrightarrow>
     requests (infoGoroutine format unmarshal get s) = [URL s @ ''/info'']
   \<and> writes (infoGoroutine format unmarshal get s) = []
   \<and> (\<forall>chunks rerr. get (URL s @ ''/info'') = GetOk chunks rerr \<longrightarrow>
         infoGoroutine format unmarshal get s = [Request (URL s @ ''/info'')])
   \<and> (\<exists>sch st. completes (infoCommand config format unmarshal client) sch st)
   \<and> (\<forall>sch st. completes (infoCommand config format unmarshal client) sch st \<longrightarrow>
         stdout (trace st) = []
       \<and> length (requests (map snd (trace st))) = length (APIServers config))"
proof (intro impI conjI allI)
  assume f: "format \<noteq> ''json'' \<and> format \<noteq> ''text''"
  then have eq: "\<And>get s. infoGoroutine format unmarshal get s
       = Request (URL s @ ''/info'') #
         (case get (URL s @ ''/info'') of
            GetError e \<Rightarrow> sendFailed e
          | GetOk chunks rerr \<Rightarrow> [])"
    by (simp add: infoGoroutine_other_format)
  show "requests (infoGoroutine format unmarshal get s) = [URL s @ ''/info'']"
    by (simp add: eq split: get_result.splits)
  show w: "\<And>get s. writes (infoGoroutine format unmarshal get s) = []"
    by (simp add: eq split: get_result.splits)
  show "\<And>chunks rerr. get (URL s @ ''/info'') = GetOk chunks rerr \<Longrightarrow>
         infoGoroutine format unmarshal get s = [Request (URL s @ ''/info'')]"
    by (simp add: eq)
  show "\<exists>sch st. completes (infoCommand config format unmarshal client) sch st"
    by (rule command_returns)
  fix sch st
  assume c: "completes (infoCommand config format unmarshal client) sch st"
  note facts = completes_inv [OF c, simplified]
  have "writes (eventsOf i (trace st)) = []" for i
  proof (cases "i < length (APIServers config)")
    case True
    then show ?thesis using facts(3) by (simp add: nth_infoCommand w)
  next
    case False
    then show ?thesis using eventsOf_outside [OF facts(4)] by simp
  qed
  then show "stdout (trace st) = []"
    by (simp add: stdout_def writes_trace_empty)
  from c have "completes (command config unmarshal (InfoArgs format) client) sch st"
    by (simp add: command_def)
  with dispatch_count show "length (requests (map snd (trace st))) = length (APIServers config)"
    by blast
qed

theorem info_unknown_format_prints_nothing_witness:
  "''JSON'' \<noteq> ''json'' \<and> ''JSON'' \<noteq> ''text''
   \<and> writes (infoGoroutine ''JSON'' exampleUnmarshal emptyReportGet \<lparr>URL = ''http://a:8880''\<rparr>) = []
   \<and> infoGoroutine ''JSON'' exampleUnmarshal brokenGet \<lparr>URL = ''http://a:8880''\<rparr>
       = [Request ''http://a:8880/info'']
   \<and> (case run (alternating 2) (init (infoCommand exampleConfig ''JSON'' exampleUnmarshal exampleClient)) of
        None \<Rightarrow> False
      | Some st \<Rightarrow> mainpc st = Returned \<and> stdout (trace st) = []
          \<and> length (requests (map snd (trace st))) = 2)"
proof -
  let ?us = "infoCommand exampleConfig ''JSON'' exampleUnmarshal exampleClient"
  have f: "''JSON'' \<noteq> ''json'' \<and> ''JSON'' \<noteq> ''text''" by simp
  have "case run (alternating 2) (init ?us) of None \<Rightarrow> False | Some s \<Rightarrow> mainpc s = Returned"
    by code_simp
  then obtain st where st: "run (alternating 2) (init ?us) = Some st" "mainpc st = Returned"
    by (auto split: option.splits)
  then have c: "completes ?us (alternating 2) st" by (simp add: completes_def)
  have g: "brokenGet (URL \<lparr>URL = ''http://a:8880''\<rparr> @ ''/info'') = GetOk [''par''] (Some ''unexpected EOF'')"
    by (simp add: brokenGet_def)
  have n: "length (APIServers exampleConfig) = 2" by (simp add: exampleConfig_def)
  from info_unknown_format_prints_nothing
         [where format = "''JSON''" and unmarshal = exampleUnmarshal and get = emptyReportGet
            and s = "\<lparr>URL = ''http://a:8880''\<rparr>" and config = exampleConfig and client = exampleClient] f
  have 1: "writes (infoGoroutine ''JSON'' exampleUnmarshal emptyReportGet \<lparr>URL = ''http://a:8880''\<rparr>) = []"
    by blast
  from info_unknown_format_prints_nothing
         [where format = "''JSON''" and unmarshal = exampleUnmarshal and get = brokenGet
            and s = "\<lparr>URL = ''http://a:8880''\<rparr>" and config = exampleConfig and client = exampleClient] f g
  have 2: "infoGoroutine ''JSON'' exampleUnmarshal brokenGet \<lparr>URL = ''http://a:8880''\<rparr>
       = [Request ''http://a:8880/info'']"
    by fastforce
  from info_unknown_format_prints_nothing
         [where format = "''JSON''" and unmarshal = exampleUnmarshal and get = emptyReportGet
            and s = "\<lparr>URL = ''http://a:8880''\<rparr>" and config = exampleConfig and client = exampleClient] f c n
  have 3: "stdout (trace st) = [] \<and> length (requests (map snd (trace st))) = 2"
    by metis
  from f 1 2 3 st show ?thesis by simp
qed

lemma concat_filter_nonempty: "concat (filter (\<lambda>c. c \<noteq> []) chunks) = concat chunks"
  by (induction chunks) simp_all

lemma writes_infoText:
  "writes (infoText s info)
     = [URL s @ '':'' @ newline, headerLine, columnLine]
       @ concat (map (\<lambda>sr. serviceRow sr # map destinationRow (Destinations sr)) (Services info))
       @ [newline]"
proof -
  have "writes (concat (map serviceWrites srs))
      = concat (map (\<lambda>sr. serviceRow sr # map destinationRow (Destinations sr)) srs)" for srs
    by (induction srs) (simp_all add: serviceWrites_def)
  then show ?thesis by (simp add: infoText_def)
qed

lemma writes_unlockGoroutine:
  "get (unlockURL s f) = GetOk chunks rerr \<Longrightarrow>
     writes (unlockGoroutine f get s) = filter (\<lambda>c. c \<noteq> []) chunks"
  by (simp add: unlockGoroutine_def ioCopy_def)

lemma writes_labelledBody:
  "get u = GetOk chunks rerr \<Longrightarrow> writes (labelledBody u get s) = [labelled s (concat chunks)]"
  by (simp add: labelledBody_def)

lemma labelled_output:
  "concat (writes (bodyOf unmarshal cmd get s)) = []
   \<or> (\<exists>rest. concat (writes (bodyOf unmarshal cmd get s)) = URL s @ '':'' @ newline @ rest)
   \<or> (\<exists>f. cmd = UnlockArgs f)"
proof (cases cmd)
  case (InfoArgs format)
  then show ?thesis
    by (cases "get (URL s @ ''/info'')")
      (auto simp: bodyOf_def infoGoroutine_def labelled_def writes_infoText Let_def split: prod.splits)
next
  case (DetachArgs f)
  then show ?thesis
    by (cases "get (detachURL s f)")
      (auto simp: bodyOf_def detachGoroutine_def labelledBody_def labelled_def)
next
  case (AttachArgs f)
  then show ?thesis
    by (cases "get (attachURL s f)")
      (auto simp: bodyOf_def attachGoroutine_def labelledBody_def labelled_def)
next
  case (UnlockArgs f)
  then show ?thesis by simp
qed

text \<open>
  C10. A goroutine of \<^verbatim>\<open>unlock\<close> writes the bytes of the body and nothing else: no label, no
  newline at the end. The goroutines of \<^verbatim>\<open>attach\<close>, \<^verbatim>\<open>detach\<close> and \<^verbatim>\<open>info\<close> write the URL of the
  server, a colon and a newline in front of what they print; what such a goroutine has
  written is empty or starts with this label.
\<close>

theorem unlock_prints_body_without_label:
  "(get (unlockURL s f) = GetOk chunks rerr \<longrightarrow>
      concat (writes (unlockGoroutine f get s)) = concat chunks)
   \<and> (completes (unlockCommand config f client) sch st \<and> i < length (APIServers config)
        \<and> client i (unlockURL (APIServers config ! i) f) = GetOk chunks rerr \<longrightarrow>
      concat (writes (eventsOf i (trace st))) = concat chunks)
   \<and> (get (attachURL s f) = GetOk chunks rerr \<longrightarrow>
      writes (attachGoroutine f get s) = [URL s @ '':'' @ newline @ concat chunks @ newline])
   \<and> (get (detachURL s f) = GetOk chunks rerr \<longrightarrow>
      writes (detachGoroutine f get s) = [URL s @ '':'' @ newline @ concat chunks @ newline])
   \<and> (get (URL s @ ''/info'') = GetOk chunks rerr \<longrightarrow>
      writes (infoGoroutine ''json'' unmarshal get s)
        = [URL s @ '':'' @ newline @ concat chunks @ newline]
      \<and> (\<exists>rest. concat (writes (infoGoroutine ''text'' unmarshal get s))
            = URL s @ '':'' @ newline @ rest))
   \<and> ((\<forall>f. cmd \<noteq> UnlockArgs f) \<longrightarrow>
        concat (writes (bodyOf unmarshal cmd get s)) = []
        \<or> (\<exists>rest. concat (writes (bodyOf unmarshal cmd get s)) = URL s @ '':'' @ newline @ rest))"
proof (intro conjI impI)
  assume "get (unlockURL s f) = GetOk chunks rerr"
  then show "concat (writes (unlockGoroutine f get s)) = concat chunks"
    by (simp add: writes_unlockGoroutine concat_filter_nonempty)
next
  assume a: "completes (unlockCommand config f client) sch st \<and> i < length (APIServers config)
        \<and> client i (unlockURL (APIServers config ! i) f) = GetOk chunks rerr"
  then have "eventsOf i (trace st) = unlockGoroutine f (client i) (APIServers config ! i)"
    using completes_inv(3) [of "unlockCommand config f client" sch st]
    by (simp add: nth_unlockCommand)
  with a show "concat (writes (eventsOf i (trace st))) = concat chunks"
    by (simp add: writes_unlockGoroutine concat_filter_nonempty)
next
  assume "get (attachURL s f) = GetOk chunks rerr"
  then show "writes (attachGoroutine f get s) = [URL s @ '':'' @ newline @ concat chunks @ newline]"
    by (simp add: attachGoroutine_def writes_labelledBody labelled_def)
next
  assume "get (detachURL s f) = GetOk chunks rerr"
  then show "writes (detachGoroutine f get s) = [URL s @ '':'' @ newline @ concat chunks @ newline]"
    by (simp add: detachGoroutine_def writes_labelledBody labelled_def)
next
  assume "get (URL s @ ''/info'') = GetOk chunks rerr"
  then show "writes (infoGoroutine ''json'' unmarshal get s)
        = [URL s @ '':'' @ newline @ concat chunks @ newline]"
    by (simp add: infoGoroutine_def labelled_def)
next
  assume "get (URL s @ ''/info'') = GetOk chunks rerr"
  then show "\<exists>rest. concat (writes (infoGoroutine ''text'' unmarshal get s))
            = URL s @ '':'' @ newline @ rest"
    by (simp add: infoGoroutine_def writes_infoText Let_def split: prod.splits)
next
  assume "\<forall>f. cmd \<noteq> UnlockArgs f"
  with labelled_output [of unmarshal cmd get s]
  show "concat (writes (bodyOf unmarshal cmd get s)) = []
        \<or> (\<exists>rest. concat (writes (bodyOf unmarshal cmd get s)) = URL s @ '':'' @ newline @ rest)"
    by blast
qed


theorem unlock_prints_body_without_label_witness:
  "concat (writes (unlockGoroutine exampleFlags brokenGet serverA)) = ''par''
   \<and> writes (attachGoroutine exampleFlags emptyReportGet serverA)
       = [''http://a:8880:'' @ newline @ ''{}'' @ newline]
   \<and> writes (detachGoroutine exampleFlags emptyReportGet serverA)
       = [''http://a:8880:'' @ newline @ ''{}'' @ newline]
   \<and> writes (infoGoroutine ''json'' exampleUnmarshal emptyReportGet serverA)
       = [''http://a:8880:'' @ newline @ ''{}'' @ newline]
   \<and> (\<exists>rest. concat (writes (bodyOf exampleUnmarshal (InfoArgs ''text'') emptyReportGet serverA))
         = ''http://a:8880:'' @ newline @ rest)
   \<and> (case run (alternating 3) (init (unlockCommand exampleConfig exampleFlags exampleClient)) of
        None \<Rightarrow> False
      | Some st \<Rightarrow> mainpc st = Returned \<and> concat (writes (eventsOf 0 (trace st))) = ''{}'')"
proof -
  let ?us = "unlockCommand exampleConfig exampleFlags exampleClient"
  have "case run (alternating 3) (init ?us) of None \<Rightarrow> False | Some s \<Rightarrow> mainpc s = Returned"
    by code_simp
  then obtain st where st: "run (alternating 3) (init ?us) = Some st" "mainpc st = Returned"
    by (auto split: option.splits)
  then have c: "completes ?us (alternating 3) st" by (simp add: completes_def)
  have b: "\<And>u. brokenGet u = GetOk [''par''] (Some ''unexpected EOF'')"
    and e: "\<And>u. emptyReportGet u = GetOk [''{}''] None"
    and x: "\<And>u. exampleClient 0 u = GetOk [''{}''] None"
    and n: "0 < length (APIServers exampleConfig)"
    and u: "URL serverA = ''http://a:8880''"
    by (simp_all add: brokenGet_def emptyReportGet_def exampleClient_def exampleConfig_def
        serverA_def)
  have t: "\<forall>f. InfoArgs ''text'' \<noteq> UnlockArgs f" by simp
  have nonempty: "concat (writes (bodyOf exampleUnmarshal (InfoArgs ''text'') emptyReportGet serverA)) \<noteq> []"
    by (simp add: bodyOf_def infoGoroutine_def e exampleUnmarshal_def infoText_def)
  from unlock_prints_body_without_label
         [where get = brokenGet and s = serverA and f = exampleFlags and chunks = "[''par'']"
            and rerr = "Some ''unexpected EOF''" and i = 0 and client = exampleClient
            and config = exampleConfig and cmd = "InfoArgs ''text''"]
       b
  have 1: "concat (writes (unlockGoroutine exampleFlags brokenGet serverA)) = ''par''"
    by simp
  note th = unlock_prints_body_without_label
         [where get = emptyReportGet and s = serverA and f = exampleFlags and chunks = "[''{}'']"
            and rerr = None and i = 0 and client = exampleClient and sch = "alternating 3"
            and st = st and unmarshal = exampleUnmarshal
            and config = exampleConfig and cmd = "InfoArgs ''text''"]
  from th e u have 2: "writes (attachGoroutine exampleFlags emptyReportGet serverA)
       = [''http://a:8880:'' @ newline @ ''{}'' @ newline]"
    by simp
  from th e u have 3: "writes (detachGoroutine exampleFlags emptyReportGet serverA)
       = [''http://a:8880:'' @ newline @ ''{}'' @ newline]"
    by simp
  from th e u have 4: "writes (infoGoroutine ''json'' exampleUnmarshal emptyReportGet serverA)
       = [''http://a:8880:'' @ newline @ ''{}'' @ newline]"
    by simp
  from th t nonempty
  have "\<exists>rest. concat (writes (bodyOf exampleUnmarshal (InfoArgs ''text'') emptyReportGet serverA))
         = URL serverA @ '':'' @ newline @ rest"
    by blast
  then have 5: "\<exists>rest. concat (writes (bodyOf exampleUnmarshal (InfoArgs ''text'') emptyReportGet serverA))
         = ''http://a:8880:'' @ newline @ rest"
    by (simp add: u)
  from th c x n have 6: "concat (writes (eventsOf 0 (trace st))) = ''{}''"
    by simp
  from 1 2 3 4 5 6 st show ?thesis by simp
qed

lemma nth_command_update:
  "j < length (APIServers config) \<Longrightarrow> j \<noteq> i \<Longrightarrow>
     command config unmarshal cmd (client(i := g)) ! j = command config unmarshal cmd client ! j"
  by (simp add: nth_command)

lemma diagnostics_infoText [simp]: "diagnostics (infoText s info) = []"
proof -
  have "diagnostics (concat (map serviceWrites srs)) = []" for srs
    by (induction srs) (simp_all add: serviceWrites_def)
  then show ?thesis by (simp add: infoText_def)
qed

lemma bodyOf_send_failed:
  "get (requestURL cmd s) = GetError e \<Longrightarrow>
     bodyOf unmarshal cmd get s
       = [Request (requestURL cmd s), Stderr (''failed to send request; '' @ e @ newline)]"
  by (cases cmd)
    (simp_all add: bodyOf_def requestURL_def infoGoroutine_def attachGoroutine_def
      detachGoroutine_def unlockGoroutine_def labelledBody_def sendFailed_def)

lemma bodyOf_read_error_ignored:
  "get (requestURL cmd s) = GetOk chunks rerr \<Longrightarrow>
     bodyOf unmarshal cmd get s = bodyOf unmarshal cmd (\<lambda>u. GetOk chunks None) s"
  by (cases cmd)
    (simp_all add: bodyOf_def requestURL_def infoGoroutine_def attachGoroutine_def
      detachGoroutine_def unlockGoroutine_def labelledBody_def Let_def)

text \<open>
  A request that fails is written to standard error by the goroutine of its server, which
  does nothing else; the goroutines of the other servers do not depend on the answer that
  this one got; the command returns, and in every run that returns every goroutine has run
  its whole body. A read error on the body changes nothing in what a goroutine does.
\<close>

lemma failed_request_on_stderr_others_untouched:
  "(i < length (APIServers config)
      \<and> client i (requestURL cmd (APIServers config ! i)) = GetError e \<longrightarrow>
        command config unmarshal cmd client ! i
          = [Request (requestURL cmd (APIServers config ! i)),
             Stderr (''failed to send request; '' @ e @ newline)])
   \<and> (\<forall>j < length (APIServers config). j \<noteq> i \<longrightarrow>
        command config unmarshal cmd (client(i := g)) ! j = command config unmarshal cmd client ! j)
   \<and> (\<exists>sch st. completes (command config unmarshal cmd client) sch st)
   \<and> (completes (command config unmarshal cmd client) sch st \<longrightarrow>
        (\<forall>j < length (APIServers config).
           eventsOf j (trace st) = command config unmarshal cmd client ! j))
   \<and> (get (requestURL cmd s) = GetOk chunks rerr \<longrightarrow>
        bodyOf unmarshal cmd get s = bodyOf unmarshal cmd (\<lambda>u. GetOk chunks None) s
        \<and> diagnostics (bodyOf unmarshal cmd get s) = [])"
proof (intro conjI impI allI)
  assume "i < length (APIServers config)
      \<and> client i (requestURL cmd (APIServers config ! i)) = GetError e"
  then show "command config unmarshal cmd client ! i
          = [Request (requestURL cmd (APIServers config ! i)),
             Stderr (''failed to send request; '' @ e @ newline)]"
    by (simp add: nth_command bodyOf_send_failed)
next
  fix j assume "j < length (APIServers config)" "j \<noteq> i"
  then show "command config unmarshal cmd (client(i := g)) ! j = command config unmarshal cmd client ! j"
    by (rule nth_command_update)
next
  show "\<exists>sch st. completes (command config unmarshal cmd client) sch st"
    by (rule command_returns)
next
  fix j
  assume "completes (command config unmarshal cmd client) sch st" "j < length (APIServers config)"
  then show "eventsOf j (trace st) = command config unmarshal cmd client ! j"
    using completes_inv(3) [of "command config unmarshal cmd client" sch st] by simp
next
  assume a: "get (requestURL cmd s) = GetOk chunks rerr"
  then show "bodyOf unmarshal cmd get s = bodyOf unmarshal cmd (\<lambda>u. GetOk chunks None) s"
    by (rule bodyOf_read_error_ignored)
  from a show "diagnostics (bodyOf unmarshal cmd get s) = []"
    by (cases cmd)
      (auto simp: bodyOf_def requestURL_def infoGoroutine_def attachGoroutine_def
        detachGoroutine_def unlockGoroutine_def labelledBody_def ioCopy_def Let_def
        split: prod.splits)
qed

text \<open>
  C3. The claim fails on the code where the transport fails while the body is read. The
  connection of the first server breaks after the bytes \<^verbatim>\<open>par\<close> of the body: the goroutines of
  \<^verbatim>\<open>unlock\<close> and of \<^verbatim>\<open>attach\<close> write nothing to standard error, and \<^verbatim>\<open>attach\<close> prints these bytes
  as the block of the server, with the very events of a body that arrived whole. A refused
  connection, on the path beside it, is written to standard error. In the run of the whole
  command with two servers standard error stays empty and the cut body stands on standard
  output as the block of the first server.
\<close>

theorem read_failure_not_on_stderr:
  "unlockGoroutine exampleFlags brokenGet serverA
     = [Request ''http://a:8880/unlock?service=192.168.122.2%3A80&dest=192.168.122.62%3A80'',
        Stdout ''par'']
   \<and> attachGoroutine exampleFlags brokenGet serverA
     = [Request ''http://a:8880/attach?service=192.168.122.2%3A80&dest=192.168.122.62%3A80&lock=true'',
        Stdout (''http://a:8880:'' @ newline @ ''par'' @ newline)]
   \<and> attachGoroutine exampleFlags brokenGet serverA = attachGoroutine exampleFlags completeGet serverA
   \<and> diagnostics (unlockGoroutine exampleFlags brokenGet serverA) = []
   \<and> diagnostics (attachGoroutine exampleFlags brokenGet serverA) = []
   \<and> diagnostics (attachGoroutine exampleFlags refusedGet serverA)
     = [''failed to send request; connection refused'' @ newline]
   \<and> map_option mainpc
       (run (alternating 3) (init (attachCommand exampleConfig exampleFlags breakingClient)))
     = Some Returned
   \<and> map_option (diagnostics \<circ> map snd \<circ> trace)
       (run (alternating 3) (init (attachCommand exampleConfig exampleFlags breakingClient)))
     = Some []
   \<and> map_option (stdout \<circ> trace)
       (run (alternating 3) (init (attachCommand exampleConfig exampleFlags breakingClient)))
     = Some (''http://a:8880:'' @ newline @ ''par'' @ newline
             @ ''http://b:8880:'' @ newline @ ''{}'' @ newline)"
  by code_simp

lemma nth_infoCommand_update:
  "j < length (APIServers config) \<Longrightarrow> j \<noteq> i \<Longrightarrow>
     infoCommand config format unmarshal (client(i := g)) ! j
       = infoCommand config format unmarshal client ! j"
  by (simp add: nth_infoCommand)

text \<open>With the format \<^verbatim>\<open>text\<close> the error of \<^verbatim>\<open>json.Unmarshal\<close> changes nothing in what the
  goroutine does: it prints the block of whatever the decoder has left in \<^verbatim>\<open>info\<close>.\<close>

lemma unmarshal_error_ignored:
  "get (URL s @ ''/info'') = GetOk chunks rerr \<Longrightarrow> unmarshal (concat chunks) = (err, info) \<Longrightarrow>
     infoGoroutine ''text'' unmarshal get s = Request (URL s @ ''/info'') # infoText s info"
  by (simp add: infoGoroutine_def)

text \<open>
  C4. The claim fails on the code at a body that is not JSON. The first server answers
  \<^verbatim>\<open>oops\<close>, on which \<^verbatim>\<open>json.Unmarshal\<close> returns an error: the goroutine writes nothing to standard
  error and prints the block all the same, the label, the two heading lines and the empty
  line, with the very events of a server that answers with a report without services. In
  the run of the whole command with two servers standard error stays empty and both blocks
  stand on standard output.
\<close>

theorem decode_error_block_not_omitted:
  "fst (exampleUnmarshal ''oops'') = Some ''invalid character''
   \<and> infoGoroutine ''text'' exampleUnmarshal garbageGet serverA
     = [Request ''http://a:8880/info'',
        Stdout (''http://a:8880:'' @ newline), Stdout headerLine, Stdout columnLine,
        Stdout newline]
   \<and> infoGoroutine ''text'' exampleUnmarshal garbageGet serverA
     = infoGoroutine ''text'' exampleUnmarshal emptyReportGet serverA
   \<and> diagnostics (infoGoroutine ''text'' exampleUnmarshal garbageGet serverA) = []
   \<and> map_option mainpc
       (run (alternating 6) (init (infoCommand exampleConfig ''text'' exampleUnmarshal garbageClient)))
     = Some Returned
   \<and> map_option (diagnostics \<circ> map snd \<circ> trace)
       (run (alternating 6) (init (infoCommand exampleConfig ''text'' exampleUnmarshal garbageClient)))
     = Some []
   \<and> map_option (stdout \<circ> trace)
       (run (alternating 6) (init (infoCommand exampleConfig ''text'' exampleUnmarshal garbageClient)))
     = Some (''http://a:8880:'' @ newline @ ''http://b:8880:'' @ newline
             @ headerLine @ headerLine @ columnLine @ columnLine @ newline @ newline)"
  by code_simp

lemma writes_bodyOf_single:
  "singleWrite cmd \<Longrightarrow>
     writes (bodyOf unmarshal cmd get s) = []
     \<or> (\<exists>data. writes (bodyOf unmarshal cmd get s) = [labelled s data])"
proof (cases cmd)
  case (InfoArgs format)
  assume "singleWrite cmd"
  with InfoArgs show ?thesis
    by (cases "get (URL s @ ''/info'')")
      (auto simp: singleWrite_def bodyOf_def infoGoroutine_def Let_def)
next
  case (DetachArgs f)
  then show ?thesis
    by (cases "get (detachURL s f)") (auto simp: bodyOf_def detachGoroutine_def labelledBody_def)
next
  case (AttachArgs f)
  then show ?thesis
    by (cases "get (attachURL s f)") (auto simp: bodyOf_def attachGoroutine_def labelledBody_def)
next
  case (UnlockArgs f)
  assume "singleWrite cmd"
  with UnlockArgs show ?thesis by (simp add: singleWrite_def)
qed

text \<open>
  C1, as the code has it. The goroutines of \<^verbatim>\<open>attach\<close>, of \<^verbatim>\<open>detach\<close> and of \<^verbatim>\<open>info\<close> with a
  format other than \<^verbatim>\<open>text\<close> write at most once to standard output, and what they write is
  the whole block of their server (label, body, newline) formatted into one string; so in
  every run that returns, every write in the trace is the whole block of one server and no
  server has more than one. With the format \<^verbatim>\<open>text\<close> the block is written line by line: one
  write for the label, one for each heading line, one for each service, one for each
  destination and one for the empty line. \<^verbatim>\<open>unlock\<close> writes once for every chunk of the body
  that is not empty.
\<close>

theorem single_printf_blocks_stay_whole:
  "(singleWrite cmd \<longrightarrow>
      length (writes (bodyOf unmarshal cmd get s)) \<le> 1
      \<and> (\<forall>w \<in> set (writes (bodyOf unmarshal cmd get s)). \<exists>data. w = labelled s data))
   \<and> (singleWrite cmd \<and> completes (command config unmarshal cmd client) sch st \<longrightarrow>
      (\<forall>i < length (APIServers config). length (writes (eventsOf i (trace st))) \<le> 1)
      \<and> (\<forall>i w. (i, Stdout w) \<in> set (trace st) \<longrightarrow>
            i < length (APIServers config)
            \<and> (\<exists>data. w = labelled (APIServers config ! i) data)))
   \<and> (get (URL s @ ''/info'') = GetOk chunks rerr \<and> unmarshal (concat chunks) = (err, info) \<longrightarrow>
      writes (infoGoroutine ''text'' unmarshal get s)
        = [URL s @ '':'' @ newline, headerLine, columnLine]
          @ concat (map (\<lambda>sr. serviceRow sr # map destinationRow (Destinations sr)) (Services info))
          @ [newline])
   \<and> (get (unlockURL s f) = GetOk chunks rerr \<longrightarrow>
      writes (unlockGoroutine f get s) = filter (\<lambda>c. c \<noteq> []) chunks)"
proof (intro conjI impI allI)
  assume "singleWrite cmd"
  from writes_bodyOf_single [OF this, of unmarshal get s]
  show "length (writes (bodyOf unmarshal cmd get s)) \<le> 1"
    and "\<forall>w \<in> set (writes (bodyOf unmarshal cmd get s)). \<exists>data. w = labelled s data"
    by auto
next
  fix i
  assume a: "singleWrite cmd \<and> completes (command config unmarshal cmd client) sch st"
    and i: "i < length (APIServers config)"
  then have "eventsOf i (trace st) = bodyOf unmarshal cmd (client i) (APIServers config ! i)"
    using completes_inv(3) [of "command config unmarshal cmd client" sch st]
    by (simp add: nth_command)
  with a writes_bodyOf_single [of cmd unmarshal "client i" "APIServers config ! i"]
  show "length (writes (eventsOf i (trace st))) \<le> 1" by auto
next
  fix i w
  assume a: "singleWrite cmd \<and> completes (command config unmarshal cmd client) sch st"
    and m: "(i, Stdout w) \<in> set (trace st)"
  note facts = completes_inv [of "command config unmarshal cmd client" sch st, simplified]
  from a m facts(4) show i: "i < length (APIServers config)" by force
  with a facts(3)
  have "eventsOf i (trace st) = bodyOf unmarshal cmd (client i) (APIServers config ! i)"
    by (simp add: nth_command)
  moreover from m have "w \<in> set (writes (eventsOf i (trace st)))"
    by (simp add: set_writes set_eventsOf)
  ultimately show "\<exists>data. w = labelled (APIServers config ! i) data"
    using a writes_bodyOf_single [of cmd unmarshal "client i" "APIServers config ! i"] by auto
next
  assume "get (URL s @ ''/info'') = GetOk chunks rerr \<and> unmarshal (concat chunks) = (err, info)"
  then show "writes (infoGoroutine ''text'' unmarshal get s)
        = [URL s @ '':'' @ newline, headerLine, columnLine]
          @ concat (map (\<lambda>sr. serviceRow sr # map destinationRow (Destinations sr)) (Services info))
          @ [newline]"
    by (simp add: infoGoroutine_def writes_infoText)
next
  assume "get (unlockURL s f) = GetOk chunks rerr"
  then show "writes (unlockGoroutine f get s) = filter (\<lambda>c. c \<noteq> []) chunks"
    by (rule writes_unlockGoroutine)
qed

text \<open>
  Two servers, format \<^verbatim>\<open>text\<close>: under the schedule that lets the two goroutines take turns,
  the command returns with the lines of the two blocks interleaved on standard output. The
  block of one server is four writes, not one.
\<close>

theorem info_text_lines_interleave:
  "map_option mainpc
     (run (alternating 6) (init (infoCommand exampleConfig ''text'' exampleUnmarshal exampleClient)))
     = Some Returned
   \<and> map_option (stdout \<circ> trace)
     (run (alternating 6) (init (infoCommand exampleConfig ''text'' exampleUnmarshal exampleClient)))
     = Some (''http://a:8880:'' @ newline @ ''http://b:8880:'' @ newline
             @ headerLine @ headerLine @ columnLine @ columnLine @ newline @ newline)
   \<and> length (writes (infoGoroutine ''text'' exampleUnmarshal emptyReportGet serverA)) = 4"
  by code_simp

theorem single_printf_blocks_stay_whole_witness:
  "singleWrite (AttachArgs exampleFlags)
   \<and> length (writes (bodyOf exampleUnmarshal (AttachArgs exampleFlags) emptyReportGet serverA)) \<le> 1
   \<and> (case run (alternating 3)
          (init (command exampleConfig exampleUnmarshal (AttachArgs exampleFlags) exampleClient)) of
        None \<Rightarrow> False
      | Some st \<Rightarrow> mainpc st = Returned
          \<and> length (writes (eventsOf 0 (trace st))) \<le> 1
          \<and> length (writes (eventsOf 1 (trace st))) \<le> 1
          \<and> stdout (trace st)
              = ''http://a:8880:'' @ newline @ ''{}'' @ newline
                @ ''http://b:8880:'' @ newline @ ''{}'' @ newline)
   \<and> writes (infoGoroutine ''text'' exampleUnmarshal emptyReportGet serverA)
       = [''http://a:8880:'' @ newline, headerLine, columnLine, newline]
   \<and> writes (unlockGoroutine exampleFlags brokenGet serverA) = [''par'']"
proof -
  let ?cmd = "AttachArgs exampleFlags"
  let ?us = "command exampleConfig exampleUnmarshal ?cmd exampleClient"
  have r: "case run (alternating 3) (init ?us) of None \<Rightarrow> False
      | Some s \<Rightarrow> mainpc s = Returned
          \<and> stdout (trace s) = ''http://a:8880:'' @ newline @ ''{}'' @ newline
                @ ''http://b:8880:'' @ newline @ ''{}'' @ newline"
    by code_simp
  then obtain st where st: "run (alternating 3) (init ?us) = Some st" "mainpc st = Returned"
    "stdout (trace st) = ''http://a:8880:'' @ newline @ ''{}'' @ newline
                @ ''http://b:8880:'' @ newline @ ''{}'' @ newline"
    by (auto split: option.splits)
  have sw: "singleWrite ?cmd" by (simp add: singleWrite_def)
  from st have c: "singleWrite ?cmd \<and> completes ?us (alternating 3) st"
    by (simp add: completes_def sw)
  have n: "0 < length (APIServers exampleConfig)" "1 < length (APIServers exampleConfig)"
    by (simp_all add: exampleConfig_def)
  have d: "emptyReportGet (URL serverA @ ''/info'') = GetOk [''{}''] None
      \<and> exampleUnmarshal (concat [''{}'']) = (None, \<lparr>Services = []\<rparr>)"
    by (simp add: emptyReportGet_def exampleUnmarshal_def)
  have b: "brokenGet (unlockURL serverA exampleFlags) = GetOk [''par''] (Some ''unexpected EOF'')"
    by (simp add: brokenGet_def)
  note th = single_printf_blocks_stay_whole
         [where cmd = ?cmd and unmarshal = exampleUnmarshal and get = emptyReportGet
            and s = serverA and config = exampleConfig and client = exampleClient
            and sch = "alternating 3" and st = st and chunks = "[''{}'']" and rerr = None
            and err = None and info = "\<lparr>Services = []\<rparr>"]
  have 1: "length (writes (bodyOf exampleUnmarshal ?cmd emptyReportGet serverA)) \<le> 1"
    by (rule th [THEN conjunct1, THEN mp, OF sw, THEN conjunct1])
  have 2: "length (writes (eventsOf 0 (trace st))) \<le> 1"
    by (rule th [THEN conjunct2, THEN conjunct1, THEN mp, OF c, THEN conjunct1, rule_format, OF n(1)])
  have 3: "length (writes (eventsOf 1 (trace st))) \<le> 1"
    by (rule th [THEN conjunct2, THEN conjunct1, THEN mp, OF c, THEN conjunct1, rule_format, OF n(2)])
  have 4: "writes (infoGoroutine ''text'' exampleUnmarshal emptyReportGet serverA)
       = [''http://a:8880:'' @ newline, headerLine, columnLine, newline]"
    using th [THEN conjunct2, THEN conjunct2, THEN conjunct1, THEN mp, OF d]
    by (simp add: serverA_def)
  have 5: "writes (unlockGoroutine exampleFlags brokenGet serverA) = [''par'']"
    using single_printf_blocks_stay_whole
         [where get = brokenGet and s = serverA and f = exampleFlags and chunks = "[''par'']"
            and rerr = "Some ''unexpected EOF''",
          THEN conjunct2, THEN conjunct2, THEN conjunct2, THEN mp, OF b]
    by simp
  from sw 1 2 3 4 5 st show ?thesis by simp
qed

lemma runeCount_ascii: "list_all (\<lambda>c. (of_char c :: nat) < 128) t \<Longrightarrow> runeCount t = length t"
  by (induction t) (simp_all add: runeSize_def)

lemma length_padRight_ascii:
  "list_all (\<lambda>c. (of_char c :: nat) < 128) t \<Longrightarrow> length (padRight w t) = max w (length t)"
  by (simp add: padRight_def runeCount_ascii)

lemma take_padRight: "take (length t) (padRight w t) = t"
  by (simp add: padRight_def)

lemma drop_padRight: "drop (length t) (padRight w t) = replicate (w - runeCount t) CHR '' ''"
  by (simp add: padRight_def)

text \<open>
  C6. For a report with the one service \<^verbatim>\<open>tcp 192.168.122.2:80 wrr\<close> and its one destination
  \<^verbatim>\<open>192.168.122.62:80\<close> (droute, weight 100, no connections, detached, not locked) the
  goroutine prints, after the label of the server, the heading line, the line of the column
  names, the row of the service and one row for the destination, and ends with an empty
  line. The row of a destination has the columns left-justified in the widths 28, 7, 6, 10,
  9 and 8, counted in runes (for ASCII text, in bytes). A service without destinations
  prints its own row only.
\<close>

theorem info_text_rendering:
  "infoText s \<lparr>Services = [exampleService]\<rparr>
     = [Stdout (URL s @ '':'' @ newline),
        Stdout (''Prot LocalAddress:Port Scheduler Flags'' @ newline),
        Stdout (''  -> RemoteAddress:Port           Forward Weight ActiveConn InActConn Detached Locked'' @ newline),
        Stdout (''tcp  192.168.122.2:80 wrr'' @ newline),
        Stdout (''  -> 192.168.122.62:80            droute  100    0          0         true     false'' @ newline),
        Stdout newline]
   \<and> (get (URL s @ ''/info'') = GetOk chunks rerr
        \<and> unmarshal (concat chunks) = (None, \<lparr>Services = [exampleService]\<rparr>) \<longrightarrow>
      writes (infoGoroutine ''text'' unmarshal get s)
        = [URL s @ '':'' @ newline,
           ''Prot LocalAddress:Port Scheduler Flags'' @ newline,
           ''  -> RemoteAddress:Port           Forward Weight ActiveConn InActConn Detached Locked'' @ newline,
           ''tcp  192.168.122.2:80 wrr'' @ newline,
           ''  -> 192.168.122.62:80            droute  100    0          0         true     false'' @ newline,
           newline])
   \<and> serviceWrites (sr\<lparr>Destinations := []\<rparr>) = [Stdout (serviceRow sr)]
   \<and> infoText s \<lparr>Services = [sr\<lparr>Destinations := []\<rparr>]\<rparr>
     = [Stdout (URL s @ '':'' @ newline), Stdout headerLine, Stdout columnLine,
        Stdout (serviceRow sr), Stdout newline]
   \<and> destinationRow d
     = ''  -> '' @ padRight 28 (joinHostPort (dAddress d) (itoa (dPort d))) @ '' ''
       @ padRight 7 (Forward d) @ '' '' @ padRight 6 (itoa (Weight d)) @ '' ''
       @ padRight 10 (itoa (ActiveConn d)) @ '' '' @ padRight 9 (itoa (InactiveConn d)) @ '' ''
       @ padRight 8 (showBool (Detached d)) @ '' '' @ showBool (Locked d) @ newline
   \<and> take (length t) (padRight w t) = t
   \<and> drop (length t) (padRight w t) = replicate (w - runeCount t) CHR '' ''
   \<and> (list_all (\<lambda>c. (of_char c :: nat) < 128) t \<longrightarrow>
        runeCount t = length t \<and> length (padRight w t) = max w (length t))
   \<and> padRight 4 [CHR 0xC3, CHR 0xA9] = [CHR 0xC3, CHR 0xA9] @ ''   ''"
proof (intro conjI impI)
  have "serviceRow exampleService = ''tcp  192.168.122.2:80 wrr'' @ newline"
    by code_simp
  moreover have "destinationRow exampleDestination
      = ''  -> 192.168.122.62:80            droute  100    0          0         true     false'' @ newline"
    by code_simp
  moreover have "Destinations exampleService = [exampleDestination]"
    by (simp add: exampleService_def)
  ultimately show t: "infoText s \<lparr>Services = [exampleService]\<rparr>
     = [Stdout (URL s @ '':'' @ newline),
        Stdout (''Prot LocalAddress:Port Scheduler Flags'' @ newline),
        Stdout (''  -> RemoteAddress:Port           Forward Weight ActiveConn InActConn Detached Locked'' @ newline),
        Stdout (''tcp  192.168.122.2:80 wrr'' @ newline),
        Stdout (''  -> 192.168.122.62:80            droute  100    0          0         true     false'' @ newline),
        Stdout newline]"
    by (simp add: infoText_def serviceWrites_def headerLine_def columnLine_def)
  assume "get (URL s @ ''/info'') = GetOk chunks rerr
        \<and> unmarshal (concat chunks) = (None, \<lparr>Services = [exampleService]\<rparr>)"
  then have "infoGoroutine ''text'' unmarshal get s
      = Request (URL s @ ''/info'') # infoText s \<lparr>Services = [exampleService]\<rparr>"
    by (simp add: infoGoroutine_def)
  then show "writes (infoGoroutine ''text'' unmarshal get s)
        = [URL s @ '':'' @ newline,
           ''Prot LocalAddress:Port Scheduler Flags'' @ newline,
           ''  -> RemoteAddress:Port           Forward Weight ActiveConn InActConn Detached Locked'' @ newline,
           ''tcp  192.168.122.2:80 wrr'' @ newline,
           ''  -> 192.168.122.62:80            droute  100    0          0         true     false'' @ newline,
           newline]"
    by (simp add: t)
next
  show "serviceWrites (sr\<lparr>Destinations := []\<rparr>) = [Stdout (serviceRow sr)]"
    by (simp add: serviceWrites_def serviceRow_def)
  then show "infoText s \<lparr>Services = [sr\<lparr>Destinations := []\<rparr>]\<rparr>
     = [Stdout (URL s @ '':'' @ newline), Stdout headerLine, Stdout columnLine,
        Stdout (serviceRow sr), Stdout newline]"
    by (simp add: infoText_def)
  show "destinationRow d
     = ''  -> '' @ padRight 28 (joinHostPort (dAddress d) (itoa (dPort d))) @ '' ''
       @ padRight 7 (Forward d) @ '' '' @ padRight 6 (itoa (Weight d)) @ '' ''
       @ padRight 10 (itoa (ActiveConn d)) @ '' '' @ padRight 9 (itoa (InactiveConn d)) @ '' ''
       @ padRight 8 (showBool (Detached d)) @ '' '' @ showBool (Locked d) @ newline"
    by (simp add: destinationRow_def)
  show "take (length t) (padRight w t) = t" by (rule take_padRight)
  show "drop (length t) (padRight w t) = replicate (w - runeCount t) CHR '' ''" by (rule drop_padRight)
  show "padRight 4 [CHR 0xC3, CHR 0xA9] = [CHR 0xC3, CHR 0xA9] @ ''   ''" by code_simp
next
  assume a: "list_all (\<lambda>c. (of_char c :: nat) < 128) t"
  then show "runeCount t = length t" by (rule runeCount_ascii)
  from a show "length (padRight w t) = max w (length t)" by (rule length_padRight_ascii)
qed


theorem info_text_rendering_witness:
  "concat (writes (infoGoroutine ''text'' exampleReportUnmarshal emptyReportGet serverA))
     = ''http://a:8880:'' @ newline
       @ ''Prot LocalAddress:Port Scheduler Flags'' @ newline
       @ ''  -> RemoteAddress:Port           Forward Weight ActiveConn InActConn Detached Locked'' @ newline
       @ ''tcp  192.168.122.2:80 wrr'' @ newline
       @ ''  -> 192.168.122.62:80            droute  100    0          0         true     false'' @ newline
       @ newline
   \<and> runeCount ''droute'' = 6 \<and> length (padRight 7 ''droute'') = 7"
proof -
  have h: "emptyReportGet (URL serverA @ ''/info'') = GetOk [''{}''] None
        \<and> exampleReportUnmarshal (concat [''{}'']) = (None, \<lparr>Services = [exampleService]\<rparr>)"
    by (simp add: emptyReportGet_def exampleReportUnmarshal_def)
  from info_text_rendering
         [where get = emptyReportGet and s = serverA and chunks = "[''{}'']" and rerr = None
            and unmarshal = exampleReportUnmarshal, THEN conjunct2, THEN conjunct1, THEN mp, OF h]
  have 1: "concat (writes (infoGoroutine ''text'' exampleReportUnmarshal emptyReportGet serverA))
     = ''http://a:8880:'' @ newline
       @ ''Prot LocalAddress:Port Scheduler Flags'' @ newline
       @ ''  -> RemoteAddress:Port           Forward Weight ActiveConn InActConn Detached Locked'' @ newline
       @ ''tcp  192.168.122.2:80 wrr'' @ newline
       @ ''  -> 192.168.122.62:80            droute  100    0          0         true     false'' @ newline
       @ newline"
    by (simp add: serverA_def)
  have a: "list_all (\<lambda>c. (of_char c :: nat) < 128) ''droute''" by simp
  from info_text_rendering
         [where t = "''droute''" and w = 7, THEN conjunct2, THEN conjunct2, THEN conjunct2,
          THEN conjunct2, THEN conjunct2, THEN conjunct2, THEN conjunct2, THEN conjunct1,
          THEN mp, OF a]
  have 2: "runeCount ''droute'' = 6 \<and> length (padRight 7 ''droute'') = 7" by simp
  from 1 2 show ?thesis by (rule conjI)
qed

lemma of_char_less_256: "(of_char c :: nat) < 256"
proof -
  have "(of_char c :: nat) = of_char (char_of (of_char c :: nat))" by simp
  also have "\<dots> = (of_char c :: nat) mod 256" by (simp only: of_char_of)
  finally have "(of_char c :: nat) = of_char c mod 256" .
  then show ?thesis by (metis mod_less_divisor zero_less_numeral)
qed

lemma upperhex_in: "upperhex k \<in> set ''0123456789ABCDEF''"
  unfolding upperhex_def by (rule nth_mem) simp

lemma hex_all_unescaped: "\<forall>c \<in> set ''0123456789ABCDEF''. \<not> shouldEscape c"
  by code_simp

lemma hex_not_escaped: "c \<in> set ''0123456789ABCDEF'' \<Longrightarrow> \<not> shouldEscape c"
  using hex_all_unescaped by blast

lemma shouldEscape_separators:
  "shouldEscape CHR ''&''" "shouldEscape CHR ''=''" "shouldEscape CHR ''#''"
  "shouldEscape CHR ''?''" "shouldEscape CHR ''%''" "shouldEscape CHR ''+''"
  "shouldEscape CHR '' ''"
  by (simp_all add: shouldEscape_def isAlnum_def)

lemma escapeByte_chars:
  "x \<in> set (escapeByte c) \<Longrightarrow> \<not> shouldEscape x \<or> x = CHR ''+'' \<or> x = CHR ''%''"
  using upperhex_in hex_not_escaped
  by (auto simp: escapeByte_def split: if_splits)

lemma queryEscape_chars:
  "x \<in> set (queryEscape v) \<Longrightarrow> \<not> shouldEscape x \<or> x = CHR ''+'' \<or> x = CHR ''%''"
  by (induction v) (auto dest: escapeByte_chars)

lemma queryEscape_no_separator:
  "CHR ''&'' \<notin> set (queryEscape v)" "CHR ''='' \<notin> set (queryEscape v)"
  "CHR ''#'' \<notin> set (queryEscape v)" "CHR ''?'' \<notin> set (queryEscape v)"
  using queryEscape_chars shouldEscape_separators by fastforce+

lemma splitOn_none: "c \<notin> set w \<Longrightarrow> splitOn c w = [w]"
  by (induction w) auto

lemma splitOn_append: "c \<notin> set w \<Longrightarrow> splitOn c (w @ c # rest) = w # splitOn c rest"
  by (induction w) auto

lemma takeWhile_sep: "c \<notin> set k \<Longrightarrow> takeWhile (\<lambda>x. x \<noteq> c) (k @ c # v) = k"
  by (induction k) auto

lemma dropWhile_sep: "c \<notin> set k \<Longrightarrow> dropWhile (\<lambda>x. x \<noteq> c) (k @ c # v) = c # v"
  by (induction k) auto

lemma takeWhile_all: "c \<notin> set k \<Longrightarrow> takeWhile (\<lambda>x. x \<noteq> c) k = k"
  by (induction k) auto

lemma keyValue_eq: "CHR ''='' \<notin> set k \<Longrightarrow> keyValue (k @ CHR ''='' # v) = (k, v)"
  by (simp add: keyValue_def takeWhile_sep dropWhile_sep)

lemma showBool_no_amp: "CHR ''&'' \<notin> set (showBool b)" "CHR ''#'' \<notin> set (showBool b)"
  by (simp_all add: showBool_def)

lemma rawParams_lockQuery:
  "rawParams (lockQuery f)
     = [(''service'', queryEscape (serviceAddr f)), (''dest'', queryEscape (destAddr f)),
        (''lock'', showBool (lock f))]"
proof -
  let ?w1 = "''service='' @ queryEscape (serviceAddr f)"
  let ?w2 = "''dest='' @ queryEscape (destAddr f)"
  let ?w3 = "''lock='' @ showBool (lock f)"
  have q: "lockQuery f = ?w1 @ CHR ''&'' # ?w2 @ CHR ''&'' # ?w3"
    by (simp add: lockQuery_def)
  have n: "CHR ''&'' \<notin> set ?w1" "CHR ''&'' \<notin> set ?w2" "CHR ''&'' \<notin> set ?w3"
    by (simp_all add: queryEscape_no_separator showBool_no_amp)
  have "splitOn CHR ''&'' (lockQuery f) = [?w1, ?w2, ?w3]"
    unfolding q
    by (simp only: splitOn_append [OF n(1)] splitOn_append [OF n(2)] splitOn_none [OF n(3)])
  moreover have "keyValue ?w1 = (''service'', queryEscape (serviceAddr f))"
    using keyValue_eq [of "''service''" "queryEscape (serviceAddr f)"] by simp
  moreover have "keyValue ?w2 = (''dest'', queryEscape (destAddr f))"
    using keyValue_eq [of "''dest''" "queryEscape (destAddr f)"] by simp
  moreover have "keyValue ?w3 = (''lock'', showBool (lock f))"
    using keyValue_eq [of "''lock''" "showBool (lock f)"] by simp
  ultimately show ?thesis by (simp add: rawParams_def)
qed

lemma rawParams_unlockQuery:
  "rawParams (unlockQuery f)
     = [(''service'', queryEscape (serviceAddr f)), (''dest'', queryEscape (destAddr f))]"
proof -
  let ?w1 = "''service='' @ queryEscape (serviceAddr f)"
  let ?w2 = "''dest='' @ queryEscape (destAddr f)"
  have q: "unlockQuery f = ?w1 @ CHR ''&'' # ?w2"
    by (simp add: unlockQuery_def)
  have n: "CHR ''&'' \<notin> set ?w1" "CHR ''&'' \<notin> set ?w2"
    by (simp_all add: queryEscape_no_separator)
  have "splitOn CHR ''&'' (unlockQuery f) = [?w1, ?w2]"
    unfolding q by (simp only: splitOn_append [OF n(1)] splitOn_none [OF n(2)])
  moreover have "keyValue ?w1 = (''service'', queryEscape (serviceAddr f))"
    using keyValue_eq [of "''service''" "queryEscape (serviceAddr f)"] by simp
  moreover have "keyValue ?w2 = (''dest'', queryEscape (destAddr f))"
    using keyValue_eq [of "''dest''" "queryEscape (destAddr f)"] by simp
  ultimately show ?thesis by (simp add: rawParams_def)
qed

lemma urlQuery_built:
  assumes "CHR ''?'' \<notin> set base" "CHR ''#'' \<notin> set base" "CHR ''#'' \<notin> set path"
    "CHR ''?'' \<notin> set path" "CHR ''#'' \<notin> set q"
  shows "urlQuery (base @ path @ CHR ''?'' # q) = q"
proof -
  have "CHR ''#'' \<notin> set (base @ path @ CHR ''?'' # q)"
    using assms by simp
  then have "takeWhile (\<lambda>c. c \<noteq> CHR ''#'') (base @ path @ CHR ''?'' # q) = base @ path @ CHR ''?'' # q"
    by (rule takeWhile_all)
  then have tw: "takeWhile (\<lambda>c. c \<noteq> CHR ''#'') (base @ path @ CHR ''?'' # q) = (base @ path) @ CHR ''?'' # q"
    by simp
  have dw: "dropWhile (\<lambda>c. c \<noteq> CHR ''?'') ((base @ path) @ CHR ''?'' # q) = CHR ''?'' # q"
    using assms by (intro dropWhile_sep) simp
  show ?thesis unfolding urlQuery_def tw dw by simp
qed

lemma lockQuery_no_hash: "CHR ''#'' \<notin> set (lockQuery f)"
  by (simp add: lockQuery_def queryEscape_no_separator showBool_no_amp)

lemma unlockQuery_no_hash: "CHR ''#'' \<notin> set (unlockQuery f)"
  by (simp add: unlockQuery_def queryEscape_no_separator)

lemma urlQuery_commands:
  assumes "CHR ''?'' \<notin> set (URL s)" "CHR ''#'' \<notin> set (URL s)"
  shows "urlQuery (attachURL s f) = lockQuery f"
    and "urlQuery (detachURL s f) = lockQuery f"
    and "urlQuery (unlockURL s f) = unlockQuery f"
  using urlQuery_built [OF assms, of "''/attach''" "lockQuery f"]
    urlQuery_built [OF assms, of "''/detach''" "lockQuery f"]
    urlQuery_built [OF assms, of "''/unlock''" "unlockQuery f"]
  by (simp_all add: attachURL_def detachURL_def unlockURL_def lockQuery_no_hash unlockQuery_no_hash)

lemma unhex_upperhex_all: "\<forall>k \<in> set [0..<16]. unhex (upperhex k) = Some k"
  by code_simp

lemma unhex_upperhex: "k < 16 \<Longrightarrow> unhex (upperhex k) = Some k"
  using unhex_upperhex_all by simp

lemma queryUnescape_escapeByte:
  "queryUnescape (escapeByte c @ rest) = map_option ((#) c) (queryUnescape rest)"
proof (cases "shouldEscape c")
  case False
  with shouldEscape_separators have "c \<noteq> CHR ''%''" "c \<noteq> CHR ''+''" by auto
  with False show ?thesis by (simp add: escapeByte_def split: option.splits)
next
  case True
  show ?thesis
  proof (cases "c = CHR '' ''")
    case sp: True
    with True show ?thesis by (simp add: escapeByte_def split: option.splits)
  next
    case nsp: False
    let ?n = "of_char c :: nat"
    have hi: "unhex (upperhex (?n div 16)) = Some (?n div 16)"
    proof (rule unhex_upperhex)
      from of_char_less_256 [of c] show "?n div 16 < 16" by arith
    qed
    have lo: "unhex (upperhex (?n mod 16)) = Some (?n mod 16)"
      by (intro unhex_upperhex) simp
    have whole: "char_of (16 * (?n div 16) + ?n mod 16) = c" by simp
    from True nsp hi lo whole show ?thesis
      by (simp add: escapeByte_def split: option.splits)
  qed
qed

lemma queryUnescape_queryEscape: "queryUnescape (queryEscape v) = Some v"
  by (induction v) (simp_all add: queryUnescape_escapeByte)

lemma requests_goroutines:
  "requests (attachGoroutine f get s) = [attachURL s f]"
  "requests (detachGoroutine f get s) = [detachURL s f]"
  "requests (unlockGoroutine f get s) = [unlockURL s f]"
  using requests_bodyOf [of unmarshal "AttachArgs f" get s]
    requests_bodyOf [of unmarshal "DetachArgs f" get s]
    requests_bodyOf [of unmarshal "UnlockArgs f" get s]
  by (simp_all add: bodyOf_def requestURL_def)

lemma queryEscape_alphabet: "c \<in> set (queryEscape v) \<Longrightarrow> isAlnum c \<or> c \<in> set ''-_.~+%''"
  using queryEscape_chars [of c v] by (auto simp: shouldEscape_def)

text \<open>
  C7. When the flag \<^verbatim>\<open>-lock\<close> is not given, the query of \<^verbatim>\<open>attach\<close> and \<^verbatim>\<open>detach\<close> has the
  parameters \<^verbatim>\<open>service\<close>, \<^verbatim>\<open>dest\<close> and \<^verbatim>\<open>lock=true\<close>. The query of \<^verbatim>\<open>unlock\<close> has the parameters
  \<^verbatim>\<open>service\<close> and \<^verbatim>\<open>dest\<close> and no others. The request of the goroutine of every server is the
  base URL, the path and this query; for a base URL without \<^verbatim>\<open>?\<close> and \<^verbatim>\<open>#\<close> it is the query of
  the URL.
\<close>

theorem lock_parameter_in_query:
  "(flag_lock f = None \<longrightarrow>
      rawParams (lockQuery f)
        = [(''service'', queryEscape (serviceAddr f)), (''dest'', queryEscape (destAddr f)),
           (''lock'', ''true'')])
   \<and> rawParams (unlockQuery f)
        = [(''service'', queryEscape (serviceAddr f)), (''dest'', queryEscape (destAddr f))]
   \<and> ''lock'' \<notin> set (map fst (rawParams (unlockQuery f)))
   \<and> requests (attachGoroutine f get s) = [URL s @ ''/attach?'' @ lockQuery f]
   \<and> requests (detachGoroutine f get s) = [URL s @ ''/detach?'' @ lockQuery f]
   \<and> requests (unlockGoroutine f get s) = [URL s @ ''/unlock?'' @ unlockQuery f]
   \<and> (CHR ''?'' \<notin> set (URL s) \<and> CHR ''#'' \<notin> set (URL s) \<longrightarrow>
        urlQuery (attachURL s f) = lockQuery f
        \<and> urlQuery (detachURL s f) = lockQuery f
        \<and> urlQuery (unlockURL s f) = unlockQuery f)"
proof (intro conjI impI)
  assume "flag_lock f = None"
  then have "showBool (lock f) = ''true''" by (simp add: lock_def showBool_def)
  then show "rawParams (lockQuery f)
        = [(''service'', queryEscape (serviceAddr f)), (''dest'', queryEscape (destAddr f)),
           (''lock'', ''true'')]"
    by (simp add: rawParams_lockQuery)
next
  show "rawParams (unlockQuery f)
        = [(''service'', queryEscape (serviceAddr f)), (''dest'', queryEscape (destAddr f))]"
    by (rule rawParams_unlockQuery)
  show "''lock'' \<notin> set (map fst (rawParams (unlockQuery f)))"
    by (simp add: rawParams_unlockQuery)
  show "requests (attachGoroutine f get s) = [URL s @ ''/attach?'' @ lockQuery f]"
    by (simp add: requests_goroutines attachURL_def)
  show "requests (detachGoroutine f get s) = [URL s @ ''/detach?'' @ lockQuery f]"
    by (simp add: requests_goroutines detachURL_def)
  show "requests (unlockGoroutine f get s) = [URL s @ ''/unlock?'' @ unlockQuery f]"
    by (simp add: requests_goroutines unlockURL_def)
next
  assume a: "CHR ''?'' \<notin> set (URL s) \<and> CHR ''#'' \<notin> set (URL s)"
  then show "urlQuery (attachURL s f) = lockQuery f" by (simp add: urlQuery_commands)
  from a show "urlQuery (detachURL s f) = lockQuery f" by (simp add: urlQuery_commands)
  from a show "urlQuery (unlockURL s f) = unlockQuery f" by (simp add: urlQuery_commands)
qed

theorem lock_parameter_in_query_witness:
  "flag_lock exampleFlags = None
   \<and> CHR ''?'' \<notin> set (URL serverA) \<and> CHR ''#'' \<notin> set (URL serverA)
   \<and> rawParams (urlQuery (attachURL serverA exampleFlags))
       = [(''service'', ''192.168.122.2%3A80''), (''dest'', ''192.168.122.62%3A80''),
          (''lock'', ''true'')]
   \<and> rawParams (urlQuery (detachURL serverA noFlags))
       = [(''service'', []), (''dest'', []), (''lock'', ''true'')]
   \<and> rawParams (urlQuery (unlockURL serverA exampleFlags))
       = [(''service'', ''192.168.122.2%3A80''), (''dest'', ''192.168.122.62%3A80'')]"
proof -
  have l: "flag_lock exampleFlags = None" "flag_lock noFlags = None"
    by (simp_all add: exampleFlags_def noFlags_def)
  have u: "CHR ''?'' \<notin> set (URL serverA) \<and> CHR ''#'' \<notin> set (URL serverA)"
    by (simp add: serverA_def)
  have e: "queryEscape (serviceAddr exampleFlags) = ''192.168.122.2%3A80''"
    "queryEscape (destAddr exampleFlags) = ''192.168.122.62%3A80''"
    "queryEscape (serviceAddr noFlags) = []" "queryEscape (destAddr noFlags) = []"
    by code_simp+
  note a = lock_parameter_in_query [where f = exampleFlags and s = serverA]
  note b = lock_parameter_in_query [where f = noFlags and s = serverA]
  have 1: "rawParams (lockQuery exampleFlags)
       = [(''service'', ''192.168.122.2%3A80''), (''dest'', ''192.168.122.62%3A80''),
          (''lock'', ''true'')]"
    using a [THEN conjunct1, THEN mp, OF l(1)] by (simp only: e)
  have 2: "rawParams (lockQuery noFlags) = [(''service'', []), (''dest'', []), (''lock'', ''true'')]"
    using b [THEN conjunct1, THEN mp, OF l(2)] by (simp only: e)
  have 3: "rawParams (unlockQuery exampleFlags)
       = [(''service'', ''192.168.122.2%3A80''), (''dest'', ''192.168.122.62%3A80'')]"
    using a [THEN conjunct2, THEN conjunct1] by (simp only: e)
  have qa: "urlQuery (attachURL serverA exampleFlags) = lockQuery exampleFlags
        \<and> urlQuery (detachURL serverA exampleFlags) = lockQuery exampleFlags
        \<and> urlQuery (unlockURL serverA exampleFlags) = unlockQuery exampleFlags"
    by (rule a [THEN conjunct2, THEN conjunct2, THEN conjunct2, THEN conjunct2, THEN conjunct2,
          THEN conjunct2, THEN mp, OF u])
  have qb: "urlQuery (attachURL serverA noFlags) = lockQuery noFlags
        \<and> urlQuery (detachURL serverA noFlags) = lockQuery noFlags
        \<and> urlQuery (unlockURL serverA noFlags) = unlockQuery noFlags"
    by (rule b [THEN conjunct2, THEN conjunct2, THEN conjunct2, THEN conjunct2, THEN conjunct2,
          THEN conjunct2, THEN mp, OF u])
  from l(1) u 1 2 3 qa qb show ?thesis by simp
qed

text \<open>
  C8. In the queries of \<^verbatim>\<open>attach\<close>, \<^verbatim>\<open>detach\<close> and \<^verbatim>\<open>unlock\<close> the values of \<^verbatim>\<open>service\<close> and \<^verbatim>\<open>dest\<close>
  are the values of the flags \<^verbatim>\<open>-s\<close> and \<^verbatim>\<open>-d\<close> (the empty string for a flag that is not
  given) passed through \<^verbatim>\<open>url.QueryEscape\<close>: letters, digits and \<^verbatim>\<open>- _ . ~\<close> as they are, a
  space as \<^verbatim>\<open>+\<close>, every other byte as \<^verbatim>\<open>%\<close> and two hexadecimal digits. Unescaping gives the
  value back.
\<close>

theorem query_values_escaped:
  "rawParams (lockQuery f)
     = [(''service'', queryEscape (serviceAddr f)), (''dest'', queryEscape (destAddr f)),
        (''lock'', showBool (lock f))]
   \<and> rawParams (unlockQuery f)
     = [(''service'', queryEscape (serviceAddr f)), (''dest'', queryEscape (destAddr f))]
   \<and> requests (attachGoroutine f get s) = [URL s @ ''/attach?'' @ lockQuery f]
   \<and> requests (detachGoroutine f get s) = [URL s @ ''/detach?'' @ lockQuery f]
   \<and> requests (unlockGoroutine f get s) = [URL s @ ''/unlock?'' @ unlockQuery f]
   \<and> serviceAddr (f\<lparr>flag_s := Some v\<rparr>) = v \<and> destAddr (f\<lparr>flag_d := Some v\<rparr>) = v
   \<and> serviceAddr (f\<lparr>flag_s := None\<rparr>) = [] \<and> destAddr (f\<lparr>flag_d := None\<rparr>) = []
   \<and> queryEscape [] = []
   \<and> queryEscape v = concat (map escapeByte v)
   \<and> queryUnescape (queryEscape v) = Some v
   \<and> (\<forall>c \<in> set (queryEscape v). isAlnum c \<or> c \<in> set ''-_.~+%'')"
proof (intro conjI ballI)
  show "rawParams (lockQuery f)
     = [(''service'', queryEscape (serviceAddr f)), (''dest'', queryEscape (destAddr f)),
        (''lock'', showBool (lock f))]"
    by (rule rawParams_lockQuery)
  show "rawParams (unlockQuery f)
     = [(''service'', queryEscape (serviceAddr f)), (''dest'', queryEscape (destAddr f))]"
    by (rule rawParams_unlockQuery)
  show "requests (attachGoroutine f get s) = [URL s @ ''/attach?'' @ lockQuery f]"
    by (simp add: requests_goroutines attachURL_def)
  show "requests (detachGoroutine f get s) = [URL s @ ''/detach?'' @ lockQuery f]"
    by (simp add: requests_goroutines detachURL_def)
  show "requests (unlockGoroutine f get s) = [URL s @ ''/unlock?'' @ unlockQuery f]"
    by (simp add: requests_goroutines unlockURL_def)
  show "serviceAddr (f\<lparr>flag_s := Some v\<rparr>) = v" by (simp add: serviceAddr_def)
  show "destAddr (f\<lparr>flag_d := Some v\<rparr>) = v" by (simp add: destAddr_def)
  show "serviceAddr (f\<lparr>flag_s := None\<rparr>) = []" by (simp add: serviceAddr_def)
  show "destAddr (f\<lparr>flag_d := None\<rparr>) = []" by (simp add: destAddr_def)
  show "queryEscape [] = []" by simp
  show "queryEscape v = concat (map escapeByte v)" by (induction v) simp_all
  show "queryUnescape (queryEscape v) = Some v" by (rule queryUnescape_queryEscape)
  show "\<And>c. c \<in> set (queryEscape v) \<Longrightarrow> isAlnum c \<or> c \<in> set ''-_.~+%''"
    by (rule queryEscape_alphabet)
qed

theorem query_values_escaped_witness:
  "queryEscape ''a b&c=d/e%f+g~h'' = ''a+b%26c%3Dd%2Fe%25f%2Bg~h''
   \<and> queryUnescape ''a+b%26c%3Dd%2Fe%25f%2Bg~h'' = Some ''a b&c=d/e%f+g~h''
   \<and> list_all (\<lambda>c. isAlnum c \<or> c \<in> set ''-_.~+%'') ''a+b%26c%3Dd%2Fe%25f%2Bg~h''
   \<and> rawParams (lockQuery \<lparr>flag_s = Some ''a b&c=d/e%f+g~h'', flag_d = None, flag_lock = Some False\<rparr>)
       = [(''service'', ''a+b%26c%3Dd%2Fe%25f%2Bg~h''), (''dest'', []), (''lock'', ''false'')]"
proof -
  let ?v = "''a b&c=d/e%f+g~h''"
  let ?f = "\<lparr>flag_s = Some ?v, flag_d = None, flag_lock = Some False\<rparr>"
  have e: "queryEscape ?v = ''a+b%26c%3Dd%2Fe%25f%2Bg~h''" by code_simp
  have g: "queryEscape (serviceAddr ?f) = ''a+b%26c%3Dd%2Fe%25f%2Bg~h''"
    "queryEscape (destAddr ?f) = []" "showBool (lock ?f) = ''false''"
    by code_simp+
  note th = query_values_escaped [where v = ?v and f = ?f]
  have 1: "queryUnescape ''a+b%26c%3Dd%2Fe%25f%2Bg~h'' = Some ?v"
    using th [THEN conjunct2, THEN conjunct2, THEN conjunct2, THEN conjunct2, THEN conjunct2,
      THEN conjunct2, THEN conjunct2, THEN conjunct2, THEN conjunct2, THEN conjunct2,
      THEN conjunct2, THEN conjunct1]
    by (simp only: e)
  have "\<forall>c \<in> set ''a+b%26c%3Dd%2Fe%25f%2Bg~h''. isAlnum c \<or> c \<in> set ''-_.~+%''"
    using th [THEN conjunct2, THEN conjunct2, THEN conjunct2, THEN conjunct2, THEN conjunct2,
      THEN conjunct2, THEN conjunct2, THEN conjunct2, THEN conjunct2, THEN conjunct2,
      THEN conjunct2, THEN conjunct2]
    by (simp only: e)
  then have 2: "list_all (\<lambda>c. isAlnum c \<or> c \<in> set ''-_.~+%'') ''a+b%26c%3Dd%2Fe%25f%2Bg~h''"
    by (simp only: list_all_iff)
  have 3: "rawParams (lockQuery ?f)
       = [(''service'', ''a+b%26c%3Dd%2Fe%25f%2Bg~h''), (''dest'', []), (''lock'', ''false'')]"
    using th [THEN conjunct1] by (simp only: g)
  from e 1 2 3 show ?thesis by (intro conjI)
qed

end
